theory Spec2Isabelle
  imports Main "HOL-Library.Sublist" "HOL-Library.Word"
begin

section \<open>Strings\<close>

text \<open>
  A JavaScript or Vim string is a \<^typ>\<open>string\<close>; the raw input of \<open>decode\<close> (a
  \<open>Uint8Array\<close>) is a list of bytes.
\<close>

type_synonym bytes = "8 word list"

definition CR :: char where
  "CR = CHR 0x0D"

definition LF :: char where
  "LF = CHR 0x0A"

text \<open>\<open>text.includes(sep)\<close>: \<open>sep\<close> occurs somewhere in \<open>text\<close>.\<close>

fun contains :: "'a list \<Rightarrow> 'a list \<Rightarrow> bool" where
  "contains [] sep = (sep = [])"
| "contains (c # cs) sep = (prefix sep (c # cs) \<or> contains cs sep)"

text \<open>
  \<open>text.split(sep)\<close> for a non-empty separator: the text is scanned from the left, every
  occurrence of the separator found closes a segment, and the last segment (possibly
  empty) is what follows the last occurrence. \<open>"".split(",")\<close> is \<open>[""]\<close>. The source
  never splits on an empty separator; here it leaves the text whole.
\<close>

function js_split :: "'a list \<Rightarrow> 'a list \<Rightarrow> 'a list list" where
  "js_split sep [] = [[]]"
| "js_split sep (c # cs) =
     (if sep \<noteq> [] \<and> prefix sep (c # cs)
      then [] # js_split sep (drop (length sep) (c # cs))
      else (case js_split sep cs of
              [] \<Rightarrow> [[c]]
            | l # ls \<Rightarrow> (c # l) # ls))"
  by pat_completeness auto
termination
  by (relation "measure (\<lambda>(sep, t). length t)") auto

text \<open>\<open>a ?? b\<close>: the left operand unless it is \<open>undefined\<close> or \<open>null\<close>.\<close>

definition nullish :: "'a option \<Rightarrow> 'a option \<Rightarrow> 'a option" where
  "nullish a b = (case a of Some v \<Rightarrow> Some v | None \<Rightarrow> b)"

text \<open>\<open>maybe(x, pred)\<close> of \<open>@core/unknownutil\<close>: \<open>x\<close> when \<open>pred(x)\<close>, else \<open>undefined\<close>.\<close>

definition maybe :: "'a option \<Rightarrow> ('a \<Rightarrow> bool) \<Rightarrow> 'a option" where
  "maybe x pred = (case x of None \<Rightarrow> None | Some v \<Rightarrow> if pred v then Some v else None)"

section \<open>File formats (\<open>fileformat.ts\<close>)\<close>

text \<open>
  \<open>buffer.ts\<close> imports \<open>FileFormat\<close>, \<open>isFileFormat\<close>, \<open>findFileFormat\<close> and \<open>splitText\<close>
  from \<open>./fileformat.ts\<close>, which is not among the sources. They are modelled from the
  specification (sections 3, 4.1 and 4.3).
\<close>

text \<open>Modelled from the spec: the type \<open>FileFormat\<close>, "one of \<open>unix | dos | mac\<close>".\<close>

datatype FileFormat = Unix | Dos | Mac

text \<open>
  Modelled from the spec: the delimiter of a format, "each bound to an exact delimiter
  (\<open>\n\<close>, \<open>\r\n\<close>, \<open>\r\<close>)".
\<close>

fun newline :: "FileFormat \<Rightarrow> string" where
  "newline Unix = [LF]"
| "newline Dos = [CR, LF]"
| "newline Mac = [CR]"

text \<open>The string that is the format in TypeScript and in the editor.\<close>

fun fileformat_name :: "FileFormat \<Rightarrow> string" where
  "fileformat_name Unix = ''unix''"
| "fileformat_name Dos = ''dos''"
| "fileformat_name Mac = ''mac''"

text \<open>
  Modelled from the spec: the type guard \<open>isFileFormat\<close>, true of the three names of
  \<open>FileFormat\<close> and of nothing else.
\<close>

definition isFileFormat :: "string \<Rightarrow> bool" where
  "isFileFormat x = (x = ''unix'' \<or> x = ''dos'' \<or> x = ''mac'')"

text \<open>
  \<open>as_FileFormat\<close> reads a string as the format it names (the casts \<open>as FileFormat\<close> of
  \<open>buffer.ts\<close>); a string that names none has no delimiter and stands for no format.
\<close>

definition as_FileFormat :: "string \<Rightarrow> FileFormat option" where
  "as_FileFormat x =
     (if x = ''unix'' then Some Unix
      else if x = ''dos'' then Some Dos
      else if x = ''mac'' then Some Mac
      else None)"

text \<open>
  Modelled from the spec: \<open>findFileFormat\<close> (FileFormatDetector, section 4.1). "Scans
  \<open>text\<close> for the first occurrence of any candidate's delimiter, testing candidates in
  the given order (callers must place \<open>dos\<close> before \<open>unix\<close> so a \<open>\r\n\<close> sequence is not
  misclassified as a bare \<open>\n\<close>). Returns \<open>none\<close> if no candidate's delimiter occurs
  anywhere in \<open>text\<close>." The order of the candidates decides, as the remark on \<open>dos\<close>
  and \<open>unix\<close> requires: the result is the first candidate whose delimiter occurs.
\<close>

fun findFileFormat :: "string \<Rightarrow> FileFormat list \<Rightarrow> FileFormat option" where
  "findFileFormat text [] = None"
| "findFileFormat text (ff # fileformats) =
     (if contains text (newline ff) then Some ff else findFileFormat text fileformats)"

text \<open>
  Modelled from the spec: \<open>splitText\<close> (ContentSplitter, section 4.3). "Splits \<open>text\<close> on
  the format's delimiter. If \<open>text\<close> ends exactly with one delimiter occurrence, the
  trailing empty segment after it is dropped; otherwise the final segment is kept as
  the last line even though it was not delimiter-terminated."
\<close>

definition splitText :: "string \<Rightarrow> FileFormat \<Rightarrow> string list" where
  "splitText text ff =
     (let items = js_split (newline ff) text
      in if suffix (newline ff) text then butlast items else items)"

section \<open>Character encodings (\<open>fileencoding.ts\<close>)\<close>

text \<open>
  The platform's \<open>TextDecoder\<close> is a parameter: which labels it supports, what a byte
  sequence decodes to under a label when invalid sequences are replaced by a marker
  (the default mode), and whether a byte sequence is valid under a label (a decoder in
  \<open>fatal\<close> mode throws when it is not).
\<close>

record platform =
  supported :: "string \<Rightarrow> bool"
  lossy_decode :: "string \<Rightarrow> bytes \<Rightarrow> string"
  strict_valid :: "string \<Rightarrow> bytes \<Rightarrow> bool"

datatype error =
    RangeError
  | UnsupportedFormat
  | NoCandidate
  | E21
  | E86
  | E117
  | E121
  | E474
  | E680
  | Thrown string

text \<open>\<open>(new TextDecoder(enc)).decode(data)\<close>; an unknown label is a \<open>RangeError\<close>.\<close>

definition TextDecoder_decode :: "platform \<Rightarrow> string \<Rightarrow> bytes \<Rightarrow> error + string" where
  "TextDecoder_decode p enc data =
     (if supported p enc then Inr (lossy_decode p enc data) else Inl RangeError)"

text \<open>
  Modelled from the spec: \<open>tryDecode\<close> of \<open>./fileencoding.ts\<close>, which is not among the
  sources (EncodingDecoder, section 4.2). "Tries each candidate in order; a candidate
  succeeds if decoding it produces no invalid-sequence markers under that encoding's own
  validity rule. The first success wins and is returned immediately. If every candidate
  fails validity, the decoder performs a lossy decode using the last candidate in the
  list and reports that encoding." The specification gives no result for an empty
  candidate list; the model returns \<open>None\<close> there.
\<close>

fun tryDecode :: "platform \<Rightarrow> bytes \<Rightarrow> string list \<Rightarrow> (string \<times> string) option" where
  "tryDecode p data [] = None"
| "tryDecode p data (enc # fileencodings) =
     (if strict_valid p enc data then Some (enc, lossy_decode p enc data)
      else if fileencodings = [] then Some (enc, lossy_decode p enc data)
      else tryDecode p data fileencodings)"

section \<open>The host editor and the session\<close>

text \<open>
  The host editor is reached through \<open>denops.call\<close>, \<open>denops.cmd\<close> and the option and
  function wrappers built on them. Its state is modelled as far as the functions of
  \<open>buffer.ts\<close> read or change it: the buffers with their lines and options, the windows
  of the current tab page (in window-number order, each showing one buffer), the current
  window and the cursor lines, the global options \<open>'fileformats'\<close> and \<open>'fileencodings'\<close>,
  the script functions and variables that \<open>ensurePrerequisites\<close> defines (by the suffix of
  their names), the autocommands, and the script files sourced. One record holds the
  host state together with the session's \<open>denops.context\<close>.
\<close>

record buffer =
  b_lines :: "string list"
  b_modified :: bool
  b_modifiable :: bool
  b_filetype :: string
  b_fileformat :: FileFormat
  b_fileencoding :: string

text \<open>An entry of \<open>s:denops_std_buffer_concrete_cache_${suffix}\<close>.\<close>

record snapshot =
  c_filetype :: string
  c_content :: "string list"

datatype event = BufWriteCmd | BufReadCmd | User

datatype pattern = BufferLocal nat | Names "string list"

text \<open>
  The commands of the autocommands that \<open>buffer.ts\<close> defines: the calls of the store and
  restore functions, and the clean-up of the \<open>User DenopsStopped,DenopsClosed\<close> hooks
  (\<open>unlet\<close> of the cache, \<open>autocmd!\<close> in a group).
\<close>

datatype command =
    CallConcreteStore string
  | CallConcreteRestore string
  | UnletConcreteCache string
  | ClearGroup string

record autocmd =
  au_group :: string
  au_event :: event
  au_pattern :: pattern
  au_command :: command

text \<open>A value of \<open>denops.context\<close>, as far as \<open>typeof\<close> tells: a string or something else.\<close>

datatype jsvalue = JString string | JOther

record denops =
  d_context :: "string \<rightharpoonup> jsvalue"
  buffers :: "nat \<rightharpoonup> buffer"
  windows :: "(int \<times> nat) list"
  curwin :: int
  cursor :: "int \<Rightarrow> nat \<Rightarrow> int"
  fileformats :: string
  fileencodings :: string
  script_functions :: "string set"
  concrete_cache :: "string \<rightharpoonup> (nat \<rightharpoonup> snapshot)"
  autocmds :: "autocmd list"
  sourced :: "string list"

text \<open>
  A computation on the host: it returns a value or throws (a rejected promise), and
  leaves a state either way.
\<close>

type_synonym 'a host = "denops \<Rightarrow> (error + 'a) \<times> denops"

text \<open>
  \<open>try { return await body() } finally { await cleanup() }\<close>: the cleanup runs on every
  exit of the body, in the state the body left; when the cleanup itself throws, its
  error is the outcome.
\<close>

definition try_finally :: "'a host \<Rightarrow> unit host \<Rightarrow> 'a host" where
  "try_finally body cleanup s =
     (case body s of (r, s1) \<Rightarrow>
        (case cleanup s1 of
           (Inl e, s2) \<Rightarrow> (Inl e, s2)
         | (Inr _, s2) \<Rightarrow> (r, s2)))"

subsection \<open>Functions and commands of the editor\<close>

text \<open>\<open>win_getid()\<close>: the identifier of the current window.\<close>

definition win_getid :: "denops \<Rightarrow> int" where
  "win_getid s = curwin s"

text \<open>\<open>bufnr()\<close>: the buffer shown in the current window.\<close>

definition fn_bufnr :: "denops \<Rightarrow> nat" where
  "fn_bufnr s = (case map_of (windows s) (curwin s) of Some b \<Rightarrow> b | None \<Rightarrow> 0)"

text \<open>
  \<open>bufwinid(buf)\<close>: "the window-ID of the first window associated with buffer \<open>buf\<close>
  [...] If there is no such window, -1 is returned. Only deals with the current tab
  page." (\<open>:help bufwinid()\<close>)
\<close>

definition bufwinid :: "denops \<Rightarrow> nat \<Rightarrow> int" where
  "bufwinid s bufnr =
     (case find (\<lambda>w. snd w = bufnr) (windows s) of
        Some w \<Rightarrow> fst w
      | None \<Rightarrow> - 1)"

text \<open>
  \<open>win_gotoid(winid)\<close>: "Go to window with ID \<open>winid\<close>. Return TRUE if successful, FALSE
  if the window cannot be found." It does not throw.
\<close>

definition win_gotoid :: "int \<Rightarrow> unit host" where
  "win_gotoid winid s =
     (if winid \<in> fst ` set (windows s) then (Inr (), s\<lparr>curwin := winid\<rparr>) else (Inr (), s))"

text \<open>
  \<open>:keepjumps keepalt {N}buffer\<close>: the current window shows buffer \<open>N\<close>; E86 when there is
  no such buffer.
\<close>

definition cmd_buffer :: "nat \<Rightarrow> unit host" where
  "cmd_buffer bufnr s =
     (if buffers s bufnr = None then (Inl E86, s)
      else (Inr (),
        s\<lparr>windows := map (\<lambda>w. if fst w = curwin s then (fst w, bufnr) else w) (windows s)\<rparr>))"

text \<open>\<open>line(".")\<close>: the cursor line of the current window in its buffer.\<close>

definition fn_line_dot :: "int host" where
  "fn_line_dot s = (Inr (cursor s (curwin s) (fn_bufnr s)), s)"

text \<open>
  \<open>getbufvar(buf, '&modified')\<close> and \<open>getbufvar(buf, '&modifiable')\<close>; for a buffer that
  does not exist \<open>getbufvar\<close> returns an empty string, which is false as a flag.
\<close>

definition getbufvar_modified :: "denops \<Rightarrow> nat \<Rightarrow> bool" where
  "getbufvar_modified s bufnr = (case buffers s bufnr of Some b \<Rightarrow> b_modified b | None \<Rightarrow> False)"

definition getbufvar_modifiable :: "denops \<Rightarrow> nat \<Rightarrow> bool" where
  "getbufvar_modifiable s bufnr =
     (case buffers s bufnr of Some b \<Rightarrow> b_modifiable b | None \<Rightarrow> False)"

text \<open>\<open>setbufvar(buf, '&...', val)\<close>; nothing happens when the buffer does not exist.\<close>

definition setbufvar_modified :: "denops \<Rightarrow> nat \<Rightarrow> bool \<Rightarrow> denops" where
  "setbufvar_modified s bufnr v =
     (case buffers s bufnr of
        Some b \<Rightarrow> s\<lparr>buffers := (buffers s)(bufnr \<mapsto> b\<lparr>b_modified := v\<rparr>)\<rparr>
      | None \<Rightarrow> s)"

definition setbufvar_modifiable :: "denops \<Rightarrow> nat \<Rightarrow> bool \<Rightarrow> denops" where
  "setbufvar_modifiable s bufnr v =
     (case buffers s bufnr of
        Some b \<Rightarrow> s\<lparr>buffers := (buffers s)(bufnr \<mapsto> b\<lparr>b_modifiable := v\<rparr>)\<rparr>
      | None \<Rightarrow> s)"

text \<open>
  A change of the text of a buffer whose \<open>'modifiable'\<close> is off is refused with E21; a
  change sets \<open>'modified'\<close>. A buffer always keeps at least one line: emptied, it holds
  one empty line.
\<close>

definition put_lines :: "denops \<Rightarrow> nat \<Rightarrow> buffer \<Rightarrow> string list \<Rightarrow> denops" where
  "put_lines s bufnr b ls =
     s\<lparr>buffers := (buffers s)(bufnr \<mapsto>
        b\<lparr>b_lines := (if ls = [] then [[]] else ls), b_modified := True\<rparr>)\<rparr>"

text \<open>
  \<open>appendbufline(buf, lnum, text)\<close>: the lines of \<open>text\<close> go below line \<open>lnum\<close> (0 for
  above the first line). "On success 0 is returned, on failure 1 is returned": no
  buffer, or a line number out of range, is a failure without an exception.
\<close>

definition appendbufline :: "nat \<Rightarrow> int \<Rightarrow> string list \<Rightarrow> unit host" where
  "appendbufline bufnr lnum repl s =
     (case buffers s bufnr of
        None \<Rightarrow> (Inr (), s)
      | Some b \<Rightarrow>
          if lnum < 0 \<or> int (length (b_lines b)) < lnum \<or> repl = [] then (Inr (), s)
          else if \<not> b_modifiable b then (Inl E21, s)
          else (Inr (), put_lines s bufnr b
                  (take (nat lnum) (b_lines b) @ repl @ drop (nat lnum) (b_lines b))))"

text \<open>
  \<open>setbufline(buf, 1, text)\<close>: the lines of \<open>text\<close> replace the lines from the first on,
  and those beyond the last line are appended.
\<close>

definition setbufline_1 :: "nat \<Rightarrow> string list \<Rightarrow> unit host" where
  "setbufline_1 bufnr repl s =
     (case buffers s bufnr of
        None \<Rightarrow> (Inr (), s)
      | Some b \<Rightarrow>
          if repl = [] then (Inr (), s)
          else if \<not> b_modifiable b then (Inl E21, s)
          else (Inr (), put_lines s bufnr b (repl @ drop (length repl) (b_lines b))))"

text \<open>\<open>deletebufline(buf, first, '$')\<close>: the lines from \<open>first\<close> to the last are deleted.\<close>

definition deletebufline_to_end :: "nat \<Rightarrow> nat \<Rightarrow> unit host" where
  "deletebufline_to_end bufnr first s =
     (case buffers s bufnr of
        None \<Rightarrow> (Inr (), s)
      | Some b \<Rightarrow>
          if first < 1 \<or> length (b_lines b) < first then (Inr (), s)
          else if \<not> b_modifiable b then (Inl E21, s)
          else (Inr (), put_lines s bufnr b (take (first - 1) (b_lines b))))"

text \<open>\<open>op.fileformat.getBuffer\<close>, \<open>op.fileformats.get\<close>, \<open>op.fileencodings.get\<close>.\<close>

definition op_fileformat_getBuffer :: "denops \<Rightarrow> nat \<Rightarrow> FileFormat option" where
  "op_fileformat_getBuffer s bufnr = map_option b_fileformat (buffers s bufnr)"

definition op_fileformats_get :: "denops \<Rightarrow> string" where
  "op_fileformats_get s = fileformats s"

definition op_fileencodings_get :: "denops \<Rightarrow> string" where
  "op_fileencodings_get s = fileencodings s"

text \<open>
  \<open>setbufvar(buf, '&fileformat', val)\<close> is refused with E474 when \<open>val\<close> names no format.
\<close>

definition setbufvar_fileformat :: "nat \<Rightarrow> string \<Rightarrow> unit host" where
  "setbufvar_fileformat bufnr v s =
     (case as_FileFormat v of
        None \<Rightarrow> (Inl E474, s)
      | Some ff \<Rightarrow>
          (case buffers s bufnr of
             Some b \<Rightarrow> (Inr (), s\<lparr>buffers := (buffers s)(bufnr \<mapsto> b\<lparr>b_fileformat := ff\<rparr>)\<rparr>)
           | None \<Rightarrow> (Inr (), s)))"

definition setbufvar_fileencoding :: "nat \<Rightarrow> string \<Rightarrow> unit host" where
  "setbufvar_fileencoding bufnr v s =
     (case buffers s bufnr of
        Some b \<Rightarrow> (Inr (), s\<lparr>buffers := (buffers s)(bufnr \<mapsto> b\<lparr>b_fileencoding := v\<rparr>)\<rparr>)
      | None \<Rightarrow> (Inr (), s))"

text \<open>\<open>&filetype\<close>, \<open>getline(1, '$')\<close> and \<open>let &filetype = ...\<close> act on the current buffer.\<close>

definition get_filetype :: "denops \<Rightarrow> string" where
  "get_filetype s = (case buffers s (fn_bufnr s) of Some b \<Rightarrow> b_filetype b | None \<Rightarrow> [])"

definition getline_all :: "denops \<Rightarrow> string list" where
  "getline_all s = (case buffers s (fn_bufnr s) of Some b \<Rightarrow> b_lines b | None \<Rightarrow> [])"

definition let_filetype :: "denops \<Rightarrow> string \<Rightarrow> denops" where
  "let_filetype s v =
     (case buffers s (fn_bufnr s) of
        Some b \<Rightarrow> s\<lparr>buffers := (buffers s)(fn_bufnr s \<mapsto> b\<lparr>b_filetype := v\<rparr>)\<rparr>
      | None \<Rightarrow> s)"

subsection \<open>The script functions of \<open>ensurePrerequisites\<close>\<close>

text \<open>
  One statement after another; an error ends the sequence (the functions are defined
  with \<open>abort\<close>, and an awaited call that rejects ends an \<open>async\<close> function).
\<close>

definition and_then :: "'a host \<Rightarrow> ('a \<Rightarrow> 'b host) \<Rightarrow> 'b host" where
  "and_then m f s = (case m s of (Inl e, s1) \<Rightarrow> (Inl e, s1) | (Inr v, s1) \<Rightarrow> f v s1)"

text \<open>\<open>DenopsStdBufferAppend_${suffix}(bufnr, lnum, repl)\<close>\<close>

definition DenopsStdBufferAppend :: "nat \<Rightarrow> int \<Rightarrow> string list \<Rightarrow> unit host" where
  "DenopsStdBufferAppend bufnr lnum repl s =
     (let modified = getbufvar_modified s bufnr;
          modifiable = getbufvar_modifiable s bufnr
      in and_then (appendbufline bufnr lnum repl)
           (\<lambda>_ s2. (Inr (),
              setbufvar_modifiable (setbufvar_modified s2 bufnr modified) bufnr modifiable))
           (setbufvar_modifiable s bufnr True))"

text \<open>\<open>DenopsStdBufferReplace_${suffix}(bufnr, repl, fileformat, fileencoding)\<close>\<close>

definition DenopsStdBufferReplace ::
  "nat \<Rightarrow> string list \<Rightarrow> string option \<Rightarrow> string option \<Rightarrow> unit host" where
  "DenopsStdBufferReplace bufnr repl fileformat fileencoding s =
     (let modified = getbufvar_modified s bufnr;
          modifiable = getbufvar_modifiable s bufnr
      in and_then
           (case fileformat of
              Some ff \<Rightarrow> setbufvar_fileformat bufnr ff
            | None \<Rightarrow> (\<lambda>s1. (Inr (), s1)))
           (\<lambda>_. and_then
              (case fileencoding of
                 Some enc \<Rightarrow> setbufvar_fileencoding bufnr enc
               | None \<Rightarrow> (\<lambda>s1. (Inr (), s1)))
              (\<lambda>_. and_then (setbufline_1 bufnr repl)
                 (\<lambda>_. and_then (deletebufline_to_end bufnr (length repl + 1))
                    (\<lambda>_ s2. (Inr (),
                       setbufvar_modifiable (setbufvar_modified s2 bufnr modified)
                         bufnr modifiable)))))
           (setbufvar_modifiable s bufnr True))"

text \<open>
  \<open>DenopsStdBufferConcreteRestore_${suffix}()\<close>; E121 when the cache variable of the
  session does not exist.
\<close>

definition DenopsStdBufferConcreteRestore :: "string \<Rightarrow> unit host" where
  "DenopsStdBufferConcreteRestore sfx s =
     (case concrete_cache s sfx of
        None \<Rightarrow> (Inl E121, s)
      | Some table \<Rightarrow>
          (case table (fn_bufnr s) of
             None \<Rightarrow> (Inr (), s)
           | Some cache \<Rightarrow>
               and_then (DenopsStdBufferReplace (fn_bufnr s) (c_content cache) None None)
                 (\<lambda>_ s1. (Inr (), let_filetype s1 (c_filetype cache))) s))"

text \<open>\<open>DenopsStdBufferConcreteStore_${suffix}()\<close>\<close>

definition DenopsStdBufferConcreteStore :: "string \<Rightarrow> unit host" where
  "DenopsStdBufferConcreteStore sfx s =
     (case concrete_cache s sfx of
        None \<Rightarrow> (Inl E121, s)
      | Some table \<Rightarrow>
          (Inr (), s\<lparr>concrete_cache := (concrete_cache s)(sfx \<mapsto>
             table(fn_bufnr s \<mapsto> \<lparr>c_filetype = get_filetype s, c_content = getline_all s\<rparr>))\<rparr>))"

text \<open>
  A call of a function named with the suffix: E117 unless the script of that suffix
  has been executed.
\<close>

definition call_function :: "string \<Rightarrow> 'a host \<Rightarrow> 'a host" where
  "call_function sfx f s = (if sfx \<in> script_functions s then f s else (Inl E117, s))"

fun run_command :: "command \<Rightarrow> unit host" where
  "run_command (CallConcreteStore sfx) s =
     call_function sfx (DenopsStdBufferConcreteStore sfx) s"
| "run_command (CallConcreteRestore sfx) s =
     call_function sfx (DenopsStdBufferConcreteRestore sfx) s"
| "run_command (UnletConcreteCache sfx) s =
     (Inr (), s\<lparr>concrete_cache := (concrete_cache s)(sfx := None)\<rparr>)"
| "run_command (ClearGroup g) s =
     (Inr (), s\<lparr>autocmds := filter (\<lambda>a. au_group a \<noteq> g) (autocmds s)\<rparr>)"

text \<open>
  An event \<open>BufWriteCmd\<close> or \<open>BufReadCmd\<close> for the current buffer: the commands of the
  autocommands defined for that event and \<open><buffer=N>\<close>, \<open>N\<close> the current buffer, run in
  the order of their definition; an error in one is reported and the next one runs.
\<close>

definition doautocmd :: "event \<Rightarrow> denops \<Rightarrow> denops" where
  "doautocmd ev s =
     foldl (\<lambda>s1 a. snd (run_command (au_command a) s1)) s
       (filter (\<lambda>a. au_event a = ev \<and> au_pattern a = BufferLocal (fn_bufnr s)) (autocmds s))"

definition group_main :: "string \<Rightarrow> string" where
  "group_main sfx = ''denops_std_buffer_'' @ sfx"

definition group_reload :: "string \<Rightarrow> string" where
  "group_reload sfx = ''denops_std_buffer_reload_'' @ sfx"

definition group_concrete :: "string \<Rightarrow> string" where
  "group_concrete sfx = ''denops_std_buffer_concrete_'' @ sfx"

definition on_stop :: "string \<Rightarrow> command \<Rightarrow> autocmd" where
  "on_stop sfx c =
     \<lparr>au_group = group_main sfx, au_event = User,
      au_pattern = Names [''DenopsStopped'', ''DenopsClosed''], au_command = c\<rparr>"

text \<open>
  \<open>execute(denops, script)\<close> for the script of \<open>ensurePrerequisites\<close>: it defines the
  functions named with the suffix, sets the cache of the session to the empty
  dictionary, and defines anew the group of the four clean-up autocommands.
\<close>

definition execute_script :: "string \<Rightarrow> denops \<Rightarrow> denops" where
  "execute_script sfx s =
     s\<lparr>script_functions := insert sfx (script_functions s),
       concrete_cache := (concrete_cache s)(sfx \<mapsto> Map.empty),
       autocmds := filter (\<lambda>a. au_group a \<noteq> group_main sfx) (autocmds s) @
         [on_stop sfx (UnletConcreteCache sfx),
          on_stop sfx (ClearGroup (group_reload sfx)),
          on_stop sfx (ClearGroup (group_concrete sfx)),
          on_stop sfx (ClearGroup (group_main sfx))]\<rparr>"

section \<open>\<open>buffer.ts\<close>\<close>

definition cacheKey :: string where
  "cacheKey = ''denops_std/buffer/buffer.ts@1''"

text \<open>
  \<open>ensurePrerequisites(denops)\<close>. The identifier that \<open>ulid()\<close> would return at this call
  is the argument \<open>ulid\<close>. The source's \<open>suffix\<close> is written \<open>sfx\<close>, and \<open>denops.context\<close>
  is the field \<open>d_context\<close>.
\<close>

definition ensurePrerequisites :: "string \<Rightarrow> string host" where
  "ensurePrerequisites ulid s =
     (case d_context s cacheKey of
        Some (JString sfx) \<Rightarrow> (Inr sfx, s)
      | _ \<Rightarrow>
          (Inr ulid, execute_script ulid (s\<lparr>d_context := (d_context s)(cacheKey \<mapsto> JString ulid)\<rparr>)))"

record DecodeOptions =
  opt_fileformat :: "string option"
  opt_fileencoding :: "string option"

record DecodeResult =
  content :: "string list"
  fileformat :: FileFormat
  fileencoding :: string

text \<open>
  \<open>decode(denops, bufnr, data, options)\<close>. \<open>fileformatsStr.split(",") as FileFormat[]\<close> is
  an unchecked cast: an element that names no format (the empty string of an empty
  option) has no delimiter to be found and is left out. The current format of a buffer
  that does not exist is no format, and \<open>UnsupportedFormat\<close> is the outcome when no format
  is left to split with. \<open>if (options.fileencoding)\<close> is false of the empty string too.
\<close>

definition decode :: "platform \<Rightarrow> denops \<Rightarrow> nat \<Rightarrow> bytes \<Rightarrow> DecodeOptions \<Rightarrow> error + DecodeResult" where
  "decode p s bufnr data options =
     (let fileformat = op_fileformat_getBuffer s bufnr;
          fileformats = List.map_filter as_FileFormat (js_split '','' (op_fileformats_get s));
          fileencodings = js_split '','' (op_fileencodings_get s);
          decoded =
            (case opt_fileencoding options of
               Some enc \<Rightarrow>
                 if enc \<noteq> [] then map_sum id (Pair enc) (TextDecoder_decode p enc data)
                 else (case tryDecode p data fileencodings of
                         None \<Rightarrow> Inl NoCandidate | Some r \<Rightarrow> Inr r)
             | None \<Rightarrow>
                 (case tryDecode p data fileencodings of
                    None \<Rightarrow> Inl NoCandidate | Some r \<Rightarrow> Inr r))
      in case decoded of
           Inl e \<Rightarrow> Inl e
         | Inr (enc, text) \<Rightarrow>
             (case nullish
                     (nullish
                        (Option.bind (maybe (opt_fileformat options) isFileFormat) as_FileFormat)
                        (findFileFormat text fileformats))
                     fileformat of
                None \<Rightarrow> Inl UnsupportedFormat
              | Some ff \<Rightarrow>
                  Inr \<lparr>content = splitText text ff, fileformat = ff, fileencoding = enc\<rparr>))"

text \<open>\<open>ensure(denops, bufnr, executor)\<close>\<close>

definition ensure :: "nat \<Rightarrow> 'a host \<Rightarrow> 'a host" where
  "ensure bufnr executor s =
     (let bufnrCur = fn_bufnr s;
          winidCur = win_getid s;
          winidNext = bufwinid s bufnr
      in if winidCur = winidNext then executor s
         else if winidNext = - 1 then
           and_then (cmd_buffer bufnr)
             (\<lambda>_. try_finally executor (cmd_buffer bufnrCur)) s
         else
           and_then (win_gotoid winidNext)
             (\<lambda>_. try_finally executor (win_gotoid winidCur)) s)"

text \<open>\<open>modifiable(denops, bufnr, executor)\<close>\<close>

definition modifiable :: "nat \<Rightarrow> 'a host \<Rightarrow> 'a host" where
  "modifiable bufnr executor s =
     (let modified = getbufvar_modified s bufnr;
          modifiable = getbufvar_modifiable s bufnr
      in try_finally executor
           (\<lambda>s2. (Inr (),
              setbufvar_modifiable (setbufvar_modified s2 bufnr modified) bufnr modifiable))
           (setbufvar_modifiable s bufnr True))"

text \<open>\<open>append(denops, bufnr, repl, options)\<close>; \<open>lnum\<close> is \<open>options.lnum\<close>.\<close>

definition append :: "string \<Rightarrow> nat \<Rightarrow> string list \<Rightarrow> int option \<Rightarrow> unit host" where
  "append ulid bufnr repl lnum =
     and_then (ensurePrerequisites ulid)
       (\<lambda>sfx. and_then
          (case lnum of
             Some n \<Rightarrow> (\<lambda>s. (Inr n, s))
           | None \<Rightarrow> ensure bufnr fn_line_dot)
          (\<lambda>n. call_function sfx (DenopsStdBufferAppend bufnr n repl)))"

text \<open>
  \<open>autocmd.group(denops, name, ...)\<close> with \<open>helper.remove("*", pat)\<close> and the two
  \<open>helper.define\<close> of \<open>concrete\<close>; \<open><buffer=N>\<close> is refused with E680 when there is no
  buffer \<open>N\<close>.
\<close>

definition define_concrete_hooks :: "string \<Rightarrow> nat \<Rightarrow> unit host" where
  "define_concrete_hooks sfx bufnr s =
     (if buffers s bufnr = None then (Inl E680, s)
      else (Inr (),
        s\<lparr>autocmds :=
            filter (\<lambda>a. \<not> (au_group a = group_concrete sfx \<and> au_pattern a = BufferLocal bufnr))
              (autocmds s) @
            [\<lparr>au_group = group_concrete sfx, au_event = BufWriteCmd,
              au_pattern = BufferLocal bufnr, au_command = CallConcreteStore sfx\<rparr>,
             \<lparr>au_group = group_concrete sfx, au_event = BufReadCmd,
              au_pattern = BufferLocal bufnr, au_command = CallConcreteRestore sfx\<rparr>]\<rparr>))"

text \<open>\<open>concrete(denops, bufnr)\<close>\<close>

definition concrete :: "string \<Rightarrow> nat \<Rightarrow> unit host" where
  "concrete ulid bufnr =
     and_then (ensurePrerequisites ulid)
       (\<lambda>sfx. and_then (define_concrete_hooks sfx bufnr)
          (\<lambda>_. call_function sfx (DenopsStdBufferConcreteStore sfx)))"

section \<open>\<open>helper/load.ts\<close>\<close>

text \<open>
  A \<open>URL\<close> is an object: two objects made from the same text are two objects. A
  \<open>Set<URL>\<close> holds objects, and \<open>has\<close> and \<open>add\<close> go by the identity of the object.
\<close>

record URL =
  url_object :: nat
  href :: string

definition has :: "nat set \<Rightarrow> URL \<Rightarrow> bool" where
  "has loaded url = (url_object url \<in> loaded)"

definition add :: "nat set \<Rightarrow> URL \<Rightarrow> nat set" where
  "add loaded url = insert (url_object url) loaded"

text \<open>
  \<open>execute(denops, "execute printf('source %s', fnameescape(scriptPath))", ...)\<close>: the
  host sources the file. What the script of a path does to the host is the parameter
  \<open>script\<close>.
\<close>

definition execute_source :: "(string \<Rightarrow> unit host) \<Rightarrow> string \<Rightarrow> unit host" where
  "execute_source script scriptPath s = script scriptPath (s\<lparr>sourced := sourced s @ [scriptPath]\<rparr>)"

text \<open>
  \<open>load(denops, url, options)\<close>, on the module's set \<open>loaded\<close> and the host. The outcome
  of \<open>ensureLocalFile(url)\<close>, which depends on the file system, the network and the
  environment, is a parameter; \<open>force\<close> is \<open>options.force\<close>.
\<close>

definition load ::
  "(URL \<Rightarrow> error + string) \<Rightarrow> (string \<Rightarrow> unit host) \<Rightarrow> URL \<Rightarrow> bool \<Rightarrow>
     nat set \<times> denops \<Rightarrow> (error + bool) \<times> nat set \<times> denops" where
  "load ensureLocalFile script url force st =
     (case st of (loaded, s) \<Rightarrow>
        if \<not> force \<and> has loaded url then (Inr False, loaded, s)
        else
          (case ensureLocalFile url of
             Inl e \<Rightarrow> (Inl e, loaded, s)
           | Inr scriptPath \<Rightarrow>
               (case execute_source script scriptPath s of
                  (Inl e, s1) \<Rightarrow> (Inl e, loaded, s1)
                | (Inr _, s1) \<Rightarrow> (Inr True, add loaded url, s1))))"

section \<open>Notions used in the statements\<close>

text \<open>\<open>items.join(sep)\<close>\<close>

fun js_join :: "'a list \<Rightarrow> 'a list list \<Rightarrow> 'a list" where
  "js_join sep [] = []"
| "js_join sep [x] = x"
| "js_join sep (x # y # zs) = x @ sep @ js_join sep (y # zs)"

text \<open>
  A text whose only line breaks are \<open>\r\n\<close>: every \<open>\r\<close> is followed by \<open>\n\<close>, and no
  \<open>\n\<close> stands without its \<open>\r\<close>.
\<close>

fun only_crlf :: "string \<Rightarrow> bool" where
  "only_crlf [] = True"
| "only_crlf (c # cs) =
     (if c = CR then (case cs of [] \<Rightarrow> False | d # r \<Rightarrow> d = LF \<and> only_crlf r)
      else c \<noteq> LF \<and> only_crlf cs)"

text \<open>
  A separator no proper end of which is also its beginning: two occurrences of it never
  overlap.
\<close>

definition unbordered :: "'a list \<Rightarrow> bool" where
  "unbordered sep = (\<forall>r. r \<noteq> [] \<and> length r < length sep \<longrightarrow> \<not> suffix sep (sep @ r))"

text \<open>The pair \<open>[enc, text]\<close> that \<open>decode\<close> computes before it looks for the format.\<close>

definition decoded ::
  "platform \<Rightarrow> denops \<Rightarrow> bytes \<Rightarrow> DecodeOptions \<Rightarrow> error + string \<times> string" where
  "decoded p s data options =
     (case opt_fileencoding options of
        Some enc \<Rightarrow>
          if enc \<noteq> [] then map_sum id (Pair enc) (TextDecoder_decode p enc data)
          else (case tryDecode p data (js_split '','' (op_fileencodings_get s)) of
                  None \<Rightarrow> Inl NoCandidate | Some r \<Rightarrow> Inr r)
      | None \<Rightarrow>
          (case tryDecode p data (js_split '','' (op_fileencodings_get s)) of
             None \<Rightarrow> Inl NoCandidate | Some r \<Rightarrow> Inr r))"

text \<open>
  The windows of a state are in order: no two share an identifier, the current window
  is one of them, and every identifier is positive (\<open>-1\<close> is no window).
\<close>

definition valid_windows :: "denops \<Rightarrow> bool" where
  "valid_windows s =
     (distinct (map fst (windows s)) \<and> curwin s \<in> fst ` set (windows s) \<and>
      list_all (\<lambda>w. 0 < fst w) (windows s))"

text \<open>
  A change of the text and the file type of a buffer from outside (the user edits it, or
  the editor discards its text on \<open>:edit\<close>).
\<close>

definition edit_buffer :: "nat \<Rightarrow> string list \<Rightarrow> string \<Rightarrow> denops \<Rightarrow> denops" where
  "edit_buffer bufnr ls ft s =
     (case buffers s bufnr of
        None \<Rightarrow> s
      | Some b \<Rightarrow>
          s\<lparr>buffers := (buffers s)(bufnr \<mapsto> b\<lparr>b_lines := ls, b_filetype := ft, b_modified := True\<rparr>)\<rparr>)"

text \<open>
  The store and restore hooks of \<open>concrete\<close> are the only autocommands of their events
  for the buffer, and their functions are defined.
\<close>

definition hooked :: "string \<Rightarrow> nat \<Rightarrow> denops \<Rightarrow> bool" where
  "hooked sfx bufnr s =
     (sfx \<in> script_functions s \<and>
      filter (\<lambda>a. au_event a = BufWriteCmd \<and> au_pattern a = BufferLocal bufnr) (autocmds s) =
        [\<lparr>au_group = group_concrete sfx, au_event = BufWriteCmd,
          au_pattern = BufferLocal bufnr, au_command = CallConcreteStore sfx\<rparr>] \<and>
      filter (\<lambda>a. au_event a = BufReadCmd \<and> au_pattern a = BufferLocal bufnr) (autocmds s) =
        [\<lparr>au_group = group_concrete sfx, au_event = BufReadCmd,
          au_pattern = BufferLocal bufnr, au_command = CallConcreteRestore sfx\<rparr>])"

section \<open>Example states\<close>

definition demo_buffer :: "string list \<Rightarrow> buffer" where
  "demo_buffer ls =
     \<lparr>b_lines = ls, b_modified = False, b_modifiable = False, b_filetype = ''text'',
      b_fileformat = Unix, b_fileencoding = ''utf-8''\<rparr>"

definition demo :: denops where
  "demo =
     \<lparr>d_context = Map.empty,
      buffers = [1 \<mapsto> demo_buffer [''one''], 2 \<mapsto> demo_buffer [''a'', ''b''],
                 3 \<mapsto> demo_buffer [''x'']],
      windows = [(1000, 1), (1001, 2), (1002, 2)],
      curwin = 1000,
      cursor = (\<lambda>_ _. 1),
      fileformats = ''unix,dos'',
      fileencodings = ''utf-8,latin1'',
      script_functions = {},
      concrete_cache = Map.empty,
      autocmds = [],
      sourced = []\<rparr>"

definition demo_failing :: "unit host" where
  "demo_failing s =
     (Inl (Thrown ''boom''), setbufvar_modified (setbufvar_modifiable s 2 False) 2 True)"

definition demo_report :: "int host" where
  "demo_report s = (Inr (win_getid s), s)"

text \<open>
  A small platform for the examples: \<open>latin1\<close> accepts every byte sequence; \<open>utf-8\<close> is
  cut down to its 7-bit part (a byte from 0x80 on is invalid and decodes to a question
  mark).
\<close>

definition demo_platform :: platform where
  "demo_platform =
     \<lparr>supported = (\<lambda>enc. enc = ''utf-8'' \<or> enc = ''latin1''),
      lossy_decode = (\<lambda>enc data.
        map (\<lambda>b. if enc = ''utf-8'' \<and> 0x80 \<le> b then CHR ''?'' else char_of (unat b)) data),
      strict_valid = (\<lambda>enc data.
        enc = ''latin1'' \<or> (enc = ''utf-8'' \<and> list_all (\<lambda>b. b < 0x80) data))\<rparr>"

definition demo_ensureLocalFile :: "URL \<Rightarrow> error + string" where
  "demo_ensureLocalFile url = Inr (drop 7 (href url))"

definition demo_script :: "string \<Rightarrow> unit host" where
  "demo_script scriptPath s = (Inr (), s)"

section \<open>Properties\<close>

subsection \<open>Strings\<close>

lemma contains_iff: "contains text sep \<longleftrightarrow> (\<exists>pre post. text = pre @ sep @ post)"
proof (induction "text")
  case Nil
  then show ?case by auto
next
  case (Cons c cs)
  show ?case
  proof
    assume "contains (c # cs) sep"
    then consider "prefix sep (c # cs)" | "contains cs sep" by auto
    then show "\<exists>pre post. c # cs = pre @ sep @ post"
    proof cases
      case 1
      then obtain post where "c # cs = sep @ post" by (auto simp: prefix_def)
      then have "c # cs = [] @ sep @ post" by simp
      then show ?thesis by blast
    next
      case 2
      with Cons.IH obtain pre post where "cs = pre @ sep @ post" by blast
      then have "c # cs = (c # pre) @ sep @ post" by simp
      then show ?thesis by blast
    qed
  next
    assume "\<exists>pre post. c # cs = pre @ sep @ post"
    then obtain pre post where e: "c # cs = pre @ sep @ post" by blast
    show "contains (c # cs) sep"
    proof (cases pre)
      case Nil
      with e have "prefix sep (c # cs)" by (simp add: prefixI)
      then show ?thesis by simp
    next
      case (Cons a pre')
      with e have "cs = pre' @ sep @ post" by simp
      with Cons.IH show ?thesis by auto
    qed
  qed
qed

lemma js_split_nonempty [simp]: "js_split sep t \<noteq> []"
  by (induction sep t rule: js_split.induct) (auto split: list.splits)

lemma js_split_hd_prefix: "prefix (hd (js_split sep t)) t"
  by (induction sep t rule: js_split.induct) (auto split: list.splits)

lemma js_split_no_sep:
  "sep \<noteq> [] \<Longrightarrow> l \<in> set (js_split sep t) \<Longrightarrow> \<not> contains l sep"
proof (induction sep t arbitrary: l rule: js_split.induct)
  case (1 sep)
  then show ?case by simp
next
  case (2 sep c cs)
  show ?case
  proof (cases "prefix sep (c # cs)")
    case True
    with 2 show ?thesis by auto
  next
    case False
    obtain x xs where s: "js_split sep cs = x # xs"
      by (cases "js_split sep cs") simp_all
    have px: "prefix x cs" using js_split_hd_prefix [of sep cs] s by simp
    have "\<not> prefix sep (c # x)"
    proof
      assume "prefix sep (c # x)"
      moreover have "prefix (c # x) (c # cs)" using px by simp
      ultimately have "prefix sep (c # cs)" by (rule prefix_order.trans)
      with False show False by simp
    qed
    moreover have "\<not> contains x sep" using 2 False s by simp
    moreover have "l' \<in> set xs \<Longrightarrow> \<not> contains l' sep" for l' using 2 False s by simp
    ultimately show ?thesis using "2.prems" False s by auto
  qed
qed

lemma js_join_Cons_hd: "js_join sep ((c # l) # ls) = c # js_join sep (l # ls)"
  by (cases ls) simp_all

lemma js_join_split: "js_join sep (js_split sep t) = t"
proof (induction sep t rule: js_split.induct)
  case (1 sep)
  then show ?case by simp
next
  case (2 sep c cs)
  show ?case
  proof (cases "sep \<noteq> [] \<and> prefix sep (c # cs)")
    case True
    obtain y ys where s: "js_split sep (drop (length sep) (c # cs)) = y # ys"
      by (cases "js_split sep (drop (length sep) (c # cs))") simp_all
    from True have "sep @ drop (length sep) (c # cs) = c # cs"
      by (metis append_eq_conv_conj prefix_def)
    with 2 True s show ?thesis by simp
  next
    case False
    obtain x xs where s: "js_split sep cs = x # xs"
      by (cases "js_split sep cs") simp_all
    with 2 False show ?thesis by (auto simp: js_join_Cons_hd)
  qed
qed

lemma js_split_single: "js_split sep t = [[]] \<Longrightarrow> t = []"
  using js_join_split [of sep t] by simp

lemma js_split_last_empty:
  "sep \<noteq> [] \<Longrightarrow> unbordered sep \<Longrightarrow> suffix sep t \<Longrightarrow> last (js_split sep t) = []"
proof (induction sep t rule: js_split.induct)
  case (1 sep)
  then show ?case by simp
next
  case (2 sep c cs)
  show ?case
  proof (cases "prefix sep (c # cs)")
    case True
    define rest where "rest = drop (length sep) (c # cs)"
    from True have e: "c # cs = sep @ rest"
      unfolding rest_def by (metis append_eq_conv_conj prefix_def)
    have "last (js_split sep rest) = []"
    proof (cases "rest = []")
      case True
      then show ?thesis by simp
    next
      case False
      have "\<not> length rest < length sep"
        using "2.prems" e False by (auto simp: unbordered_def)
      then have "suffix sep rest"
        using "2.prems"(3) e by (auto simp: suffix_append)
      with 2 True show ?thesis by (simp add: rest_def)
    qed
    with True "2.prems" show ?thesis by (simp add: rest_def)
  next
    case False
    obtain x xs where s: "js_split sep cs = x # xs"
      by (cases "js_split sep cs") simp_all
    from "2.prems"(3) False have sc: "suffix sep cs"
      by (auto simp: suffix_Cons)
    with 2 False have l: "last (x # xs) = []" using s by simp
    have "xs \<noteq> []"
    proof
      assume "xs = []"
      with l s have "js_split sep cs = [[]]" by simp
      then have "cs = []" by (rule js_split_single)
      with sc "2.prems"(1) show False by simp
    qed
    with l s False show ?thesis by simp
  qed
qed

lemma CR_LF [simp]: "CR \<noteq> LF" "LF \<noteq> CR"
  by (simp_all add: CR_def LF_def)

lemma newline_nonempty [simp]: "newline ff \<noteq> []"
  by (cases ff) simp_all

lemma unbordered_newline: "unbordered (newline ff)"
  by (cases ff) (auto simp: unbordered_def suffix_def Cons_eq_append_conv length_Suc_conv)

lemma js_join_snoc_empty: "xs \<noteq> [] \<Longrightarrow> js_join sep (xs @ [[]]) = js_join sep xs @ sep"
  by (induction sep xs rule: js_join.induct) simp_all

subsection \<open>findFileFormat\<close>

lemma findFileFormat_None:
  "findFileFormat text ffs = None \<longleftrightarrow>
     (\<forall>ff\<in>set ffs. \<not> contains text (newline ff))"
  by (induction ffs) auto

lemma findFileFormat_Some:
  "findFileFormat text ffs = Some ff \<Longrightarrow>
     \<exists>pre post. ffs = pre @ ff # post \<and> contains text (newline ff) \<and>
       (\<forall>g\<in>set pre. \<not> contains text (newline g))"
proof (induction ffs)
  case Nil
  then show ?case by simp
next
  case (Cons a fs)
  show ?case
  proof (cases "contains text (newline a)")
    case True
    with Cons.prems have "a = ff" by simp
    with True have "a # fs = [] @ ff # fs \<and> contains text (newline ff) \<and>
       (\<forall>g\<in>set []. \<not> contains text (newline g))" by simp
    then show ?thesis by blast
  next
    case False
    with Cons.prems have "findFileFormat text fs = Some ff" by simp
    with Cons.IH obtain pre post where "fs = pre @ ff # post" "contains text (newline ff)"
      "\<forall>g\<in>set pre. \<not> contains text (newline g)" by blast
    with False have "a # fs = (a # pre) @ ff # post \<and> contains text (newline ff) \<and>
       (\<forall>g\<in>set (a # pre). \<not> contains text (newline g))" by simp
    then show ?thesis by blast
  qed
qed

lemma only_crlf_no_bare:
  "only_crlf text \<Longrightarrow> \<not> contains text [CR, LF] \<Longrightarrow> \<not> contains text [LF] \<and> \<not> contains text [CR]"
  by (induction "text" rule: only_crlf.induct) (auto split: if_splits list.splits)

text \<open>
  Claim C6. \<open>findFileFormat\<close> returns the first candidate, in the order given, whose
  delimiter occurs in the text, and none exactly when the delimiter of no candidate
  occurs. With the candidates dos, unix, mac a text in which \<open>\r\n\<close> occurs is dos; a
  text whose only line breaks are \<open>\r\n\<close> is dos when it has a line break and none
  otherwise, so never unix.
\<close>

theorem findFileFormat_order:
  "(findFileFormat text ffs = None \<longleftrightarrow>
      (\<forall>ff\<in>set ffs. \<not> contains text (newline ff))) \<and>
   (\<forall>ff. findFileFormat text ffs = Some ff \<longrightarrow>
      (\<exists>pre post. ffs = pre @ ff # post \<and> contains text (newline ff) \<and>
         (\<forall>g\<in>set pre. \<not> contains text (newline g)))) \<and>
   (contains text [CR, LF] \<longrightarrow> findFileFormat text [Dos, Unix, Mac] = Some Dos) \<and>
   (only_crlf text \<longrightarrow>
      findFileFormat text [Dos, Unix, Mac] = (if contains text [CR, LF] then Some Dos else None))"
proof (intro conjI allI impI)
  show "findFileFormat text ffs = None \<longleftrightarrow> (\<forall>ff\<in>set ffs. \<not> contains text (newline ff))"
    by (rule findFileFormat_None)
next
  fix ff
  assume "findFileFormat text ffs = Some ff"
  then show "\<exists>pre post. ffs = pre @ ff # post \<and> contains text (newline ff) \<and>
         (\<forall>g\<in>set pre. \<not> contains text (newline g))"
    by (rule findFileFormat_Some)
next
  assume "contains text [CR, LF]"
  then show "findFileFormat text [Dos, Unix, Mac] = Some Dos" by simp
next
  assume "only_crlf text"
  then show "findFileFormat text [Dos, Unix, Mac] = (if contains text [CR, LF] then Some Dos else None)"
    using only_crlf_no_bare [of "text"] by simp
qed

theorem findFileFormat_order_witness:
  "contains (''a'' @ [CR, LF] @ ''b'') [CR, LF] \<and> only_crlf (''a'' @ [CR, LF] @ ''b'') \<and>
   findFileFormat (''a'' @ [CR, LF] @ ''b'') [Dos, Unix, Mac] = Some Dos \<and>
   findFileFormat (''a'' @ [CR, LF] @ ''b'') [Unix, Dos, Mac] = Some Unix \<and>
   \<not> contains ''ab'' (newline Dos) \<and> \<not> contains ''ab'' (newline Unix) \<and>
   \<not> contains ''ab'' (newline Mac) \<and>
   findFileFormat ''ab'' [Dos, Unix, Mac] = None"
proof -
  note t1 = findFileFormat_order [of "''a'' @ [CR, LF] @ ''b''" "[Dos, Unix, Mac]"]
  note t2 = findFileFormat_order [of "''ab''" "[Dos, Unix, Mac]"]
  have c1: "contains (''a'' @ [CR, LF] @ ''b'') [CR, LF]" by simp
  have o1: "only_crlf (''a'' @ [CR, LF] @ ''b'')" by (simp add: CR_def LF_def)
  have u: "findFileFormat (''a'' @ [CR, LF] @ ''b'') [Unix, Dos, Mac] = Some Unix" by simp
  have n: "\<not> contains ''ab'' (newline Dos) \<and> \<not> contains ''ab'' (newline Unix) \<and>
    \<not> contains ''ab'' (newline Mac)" by (simp add: CR_def LF_def)
  have d: "findFileFormat (''a'' @ [CR, LF] @ ''b'') [Dos, Unix, Mac] = Some Dos"
    using t1 c1 by blast
  have e: "findFileFormat ''ab'' [Dos, Unix, Mac] = None"
    using t2 n by simp
  from c1 o1 u n d e show ?thesis by blast
qed

subsection \<open>splitText\<close>

lemma splitText_suffix:
  assumes "suffix (newline ff) text"
  shows "js_split (newline ff) text = splitText text ff @ [[]]" "splitText text ff \<noteq> []"
proof -
  have l: "last (js_split (newline ff) text) = []"
    using assms by (intro js_split_last_empty) (simp_all add: unbordered_newline)
  have "js_split (newline ff) text = butlast (js_split (newline ff) text) @ [last (js_split (newline ff) text)]"
    by simp
  with l assms show e: "js_split (newline ff) text = splitText text ff @ [[]]"
    by (simp add: splitText_def)
  show "splitText text ff \<noteq> []"
  proof
    assume "splitText text ff = []"
    with e have "js_split (newline ff) text = [[]]" by simp
    then have "text = []" by (rule js_split_single)
    with assms show False by simp
  qed
qed

text \<open>
  Claim C7. No line of \<open>splitText\<close> contains the delimiter of the format. When the text
  ends with the delimiter, the split has one more segment, the empty one after that
  delimiter, and it is dropped; otherwise every segment of the split is a line, the last
  one too. The lines joined by the delimiter, with the delimiter put back at the end
  when the text ended with it, are the text. \<open>"a\nb\n"\<close> and \<open>"a\nb"\<close> both give
  \<open>["a", "b"]\<close> under unix.
\<close>

theorem splitText_lines:
  "(\<forall>line\<in>set (splitText text ff). \<not> contains line (newline ff)) \<and>
   (suffix (newline ff) text \<longrightarrow> js_split (newline ff) text = splitText text ff @ [[]]) \<and>
   (\<not> suffix (newline ff) text \<longrightarrow> splitText text ff = js_split (newline ff) text) \<and>
   js_join (newline ff) (splitText text ff) @ (if suffix (newline ff) text then newline ff else []) = text \<and>
   splitText (''a'' @ [LF] @ ''b'' @ [LF]) Unix = [''a'', ''b''] \<and>
   splitText (''a'' @ [LF] @ ''b'') Unix = [''a'', ''b'']"
proof (intro conjI ballI impI)
  fix line
  assume "line \<in> set (splitText text ff)"
  then have "line \<in> set (js_split (newline ff) text)"
    by (auto simp: splitText_def Let_def dest: in_set_butlastD split: if_splits)
  then show "\<not> contains line (newline ff)"
    by (intro js_split_no_sep) simp_all
next
  assume "suffix (newline ff) text"
  then show "js_split (newline ff) text = splitText text ff @ [[]]"
    by (rule splitText_suffix)
next
  assume "\<not> suffix (newline ff) text"
  then show "splitText text ff = js_split (newline ff) text"
    by (simp add: splitText_def)
next
  show "js_join (newline ff) (splitText text ff) @ (if suffix (newline ff) text then newline ff else []) = text"
  proof (cases "suffix (newline ff) text")
    case True
    have "js_join (newline ff) (splitText text ff @ [[]]) = text"
      using splitText_suffix(1) [OF True] js_join_split [of "newline ff" "text"] by simp
    then show ?thesis
      using True splitText_suffix(2) [OF True] by (simp add: js_join_snoc_empty)
  next
    case False
    then show ?thesis by (simp add: splitText_def js_join_split)
  qed
next
  show "splitText (''a'' @ [LF] @ ''b'' @ [LF]) Unix = [''a'', ''b'']"
    by (simp add: splitText_def CR_def LF_def suffix_to_prefix)
next
  show "splitText (''a'' @ [LF] @ ''b'') Unix = [''a'', ''b'']"
    by (simp add: splitText_def CR_def LF_def suffix_to_prefix)
qed

theorem splitText_lines_witness:
  "set (splitText (''a'' @ [CR, LF] @ ''b'' @ [CR, LF]) Dos) = {''a'', ''b''} \<and>
   \<not> contains ''a'' (newline Dos) \<and> \<not> contains ''b'' (newline Dos) \<and>
   suffix (newline Dos) (''a'' @ [CR, LF] @ ''b'' @ [CR, LF]) \<and>
   js_split (newline Dos) (''a'' @ [CR, LF] @ ''b'' @ [CR, LF]) = [''a'', ''b'', []] \<and>
   \<not> suffix (newline Mac) (''a'' @ [CR] @ ''b'') \<and>
   splitText (''a'' @ [CR] @ ''b'') Mac = [''a'', ''b'']"
proof -
  note t1 = splitText_lines [of "''a'' @ [CR, LF] @ ''b'' @ [CR, LF]" Dos]
  note t2 = splitText_lines [of "''a'' @ [CR] @ ''b''" Mac]
  have s1: "splitText (''a'' @ [CR, LF] @ ''b'' @ [CR, LF]) Dos = [''a'', ''b'']"
    by (simp add: splitText_def CR_def LF_def suffix_to_prefix)
  have x1: "suffix (newline Dos) (''a'' @ [CR, LF] @ ''b'' @ [CR, LF])"
    by (simp add: splitText_def CR_def LF_def suffix_to_prefix)
  have x2: "\<not> suffix (newline Mac) (''a'' @ [CR] @ ''b'')"
    by (simp add: splitText_def CR_def LF_def suffix_to_prefix)
  have j2: "js_split (newline Mac) (''a'' @ [CR] @ ''b'') = [''a'', ''b'']"
    by (simp add: splitText_def CR_def LF_def suffix_to_prefix)
  have c: "\<not> contains ''a'' (newline Dos) \<and> \<not> contains ''b'' (newline Dos)"
    using t1 s1 by simp
  have m: "splitText (''a'' @ [CR] @ ''b'') Mac = [''a'', ''b'']"
    using t2 x2 j2 by simp
  have d: "js_split (newline Dos) (''a'' @ [CR, LF] @ ''b'' @ [CR, LF]) = [''a'', ''b'', []]"
    using t1 x1 s1 by simp
  from c m d s1 x1 x2 show ?thesis by simp
qed

subsection \<open>tryDecode\<close>

lemma tryDecode_first_valid:
  "\<forall>e\<in>set pre. \<not> strict_valid p e data \<Longrightarrow> strict_valid p enc data \<Longrightarrow>
   tryDecode p data (pre @ enc # post) = Some (enc, lossy_decode p enc data)"
  by (induction pre) simp_all

lemma tryDecode_none_valid:
  "encs \<noteq> [] \<Longrightarrow> \<forall>e\<in>set encs. \<not> strict_valid p e data \<Longrightarrow>
   tryDecode p data encs = Some (last encs, lossy_decode p (last encs) data)"
  by (induction encs) simp_all

text \<open>
  Claim C5. For a non-empty list of candidates \<open>tryDecode\<close> returns an encoding of the
  list and the text decoded under it. When some candidate is valid for the bytes, the
  encoding is the first valid one; when none is, it is the last candidate, decoded
  with replacement.
\<close>

theorem tryDecode_total:
  assumes "encs \<noteq> []"
  shows "\<exists>enc. tryDecode p data encs = Some (enc, lossy_decode p enc data) \<and>
     (if \<exists>e\<in>set encs. strict_valid p e data
      then \<exists>pre post. encs = pre @ enc # post \<and> strict_valid p enc data \<and>
             (\<forall>e\<in>set pre. \<not> strict_valid p e data)
      else enc = last encs)"
proof (cases "\<exists>e\<in>set encs. strict_valid p e data")
  case True
  then obtain pre enc post where d: "encs = pre @ enc # post" "strict_valid p enc data"
    "\<forall>e\<in>set pre. \<not> strict_valid p e data"
    using split_list_first_prop [of encs "\<lambda>e. strict_valid p e data"] by blast
  have "tryDecode p data encs = Some (enc, lossy_decode p enc data)"
    unfolding d(1) by (rule tryDecode_first_valid [OF d(3) d(2)])
  moreover have "\<exists>pre post. encs = pre @ enc # post \<and> strict_valid p enc data \<and>
             (\<forall>e\<in>set pre. \<not> strict_valid p e data)"
    using d by blast
  ultimately show ?thesis
    using True by (intro exI [of _ enc]) (simp only: if_True simp_thms)
next
  case False
  then have "tryDecode p data encs = Some (last encs, lossy_decode p (last encs) data)"
    using assms by (intro tryDecode_none_valid) simp_all
  then show ?thesis
    using False by (intro exI [of _ "last encs"]) (simp only: if_False simp_thms)
qed

theorem tryDecode_total_witness:
  "strict_valid demo_platform ''utf-8'' [0x61, 0x62] \<and>
   tryDecode demo_platform [0x61, 0x62] [''utf-8'', ''latin1''] = Some (''utf-8'', ''ab'') \<and>
   \<not> strict_valid demo_platform ''utf-8'' [0x61, 0xFF] \<and>
   fst (the (tryDecode demo_platform [0x61, 0xFF] [''utf-8'', ''latin1''])) = ''latin1'' \<and>
   \<not> strict_valid demo_platform ''utf-8'' [0xFF] \<and> \<not> strict_valid demo_platform ''ascii'' [0xFF] \<and>
   tryDecode demo_platform [0xFF] [''ascii'', ''utf-8''] = Some (''utf-8'', ''?'')"
proof -
  have ne: "[''utf-8'', ''latin1''] \<noteq> []" "[''ascii'', ''utf-8''] \<noteq> []" by simp_all
  note t1 = tryDecode_total [OF ne(1), of demo_platform "[0x61, 0x62]"]
  note t2 = tryDecode_total [OF ne(1), of demo_platform "[0x61, 0xFF]"]
  note t3 = tryDecode_total [OF ne(2), of demo_platform "[0xFF]"]
  have v: "strict_valid demo_platform ''utf-8'' [0x61, 0x62]"
    "\<not> strict_valid demo_platform ''utf-8'' [0x61, 0xFF]"
    "strict_valid demo_platform ''latin1'' [0x61, 0xFF]"
    "\<not> strict_valid demo_platform ''utf-8'' [0xFF]"
    "\<not> strict_valid demo_platform ''ascii'' [0xFF]"
    by (simp_all add: demo_platform_def)
  have l: "lossy_decode demo_platform ''utf-8'' [0x61, 0x62] = ''ab''"
    "lossy_decode demo_platform ''utf-8'' [0xFF] = ''?''"
    by (simp_all add: demo_platform_def char_of_def bit_Suc_0_iff)
  have a: "tryDecode demo_platform [0x61, 0x62] [''utf-8'', ''latin1''] = Some (''utf-8'', ''ab'')"
    using t1 v l by (auto simp: Cons_eq_append_conv)
  have b: "fst (the (tryDecode demo_platform [0x61, 0xFF] [''utf-8'', ''latin1''])) = ''latin1''"
    using t2 v by (auto simp: Cons_eq_append_conv)
  have c: "tryDecode demo_platform [0xFF] [''ascii'', ''utf-8''] = Some (''utf-8'', ''?'')"
    using t3 v l by auto
  from v a b c show ?thesis by blast
qed

subsection \<open>decode\<close>

lemma tryDecode_text:
  "tryDecode p data encs = Some (enc, t) \<Longrightarrow> t = lossy_decode p enc data"
  by (induction encs) (auto split: if_splits)

lemma tryDecode_not_None: "encs \<noteq> [] \<Longrightarrow> tryDecode p data encs \<noteq> None"
  by (induction encs) auto

lemma tryDecode_js_split: "tryDecode p data (js_split sep str) \<noteq> None"
  by (rule tryDecode_not_None) simp

lemma decoded_text: "decoded p s data options = Inr (enc, t) \<Longrightarrow> t = lossy_decode p enc data"
  by (auto simp: decoded_def TextDecoder_decode_def split: option.splits if_splits dest: tryDecode_text)

lemma decoded_Inr:
  assumes "\<forall>e. opt_fileencoding options = Some e \<and> e \<noteq> [] \<longrightarrow> supported p e"
  shows "\<exists>enc t. decoded p s data options = Inr (enc, t)"
proof -
  obtain enc t where "tryDecode p data (js_split '','' (op_fileencodings_get s)) = Some (enc, t)"
    using tryDecode_js_split [of p data "'',''" "op_fileencodings_get s"] by auto
  with assms show ?thesis
    by (auto simp: decoded_def TextDecoder_decode_def split: option.splits)
qed

lemma decode_decoded:
  "decode p s bufnr data options =
     (case decoded p s data options of
        Inl e \<Rightarrow> Inl e
      | Inr (enc, text) \<Rightarrow>
          (case nullish
                  (nullish
                     (Option.bind (maybe (opt_fileformat options) isFileFormat) as_FileFormat)
                     (findFileFormat text
                        (List.map_filter as_FileFormat (js_split '','' (op_fileformats_get s)))))
                  (op_fileformat_getBuffer s bufnr) of
             None \<Rightarrow> Inl UnsupportedFormat
           | Some ff \<Rightarrow>
               Inr \<lparr>content = splitText text ff, fileformat = ff, fileencoding = enc\<rparr>))"
  by (simp add: decode_def decoded_def Let_def)

lemma as_FileFormat_name: "isFileFormat x \<Longrightarrow> \<exists>ff. as_FileFormat x = Some ff \<and> fileformat_name ff = x"
  by (auto simp: isFileFormat_def as_FileFormat_def)

text \<open>
  Claim C1, amended. \<open>decode\<close> returns a result when the buffer exists and the encoding
  given, if any, is one the platform supports. In a result, the format is the one
  \<open>options.fileformat\<close> names when that is the name of a format; when no format is
  given, or the string given names none, it is the format \<open>findFileFormat\<close> detects in
  the decoded text among the formats of \<open>'fileformats'\<close>, and the format of the buffer
  when none is detected. The content is \<open>splitText\<close> of the decoded text under the
  format of the result.
\<close>

theorem decode_fileformat:
  "(buffers s bufnr \<noteq> None \<and>
      (\<forall>e. opt_fileencoding options = Some e \<and> e \<noteq> [] \<longrightarrow> supported p e) \<longrightarrow>
      (\<exists>r. decode p s bufnr data options = Inr r)) \<and>
   (\<forall>r. decode p s bufnr data options = Inr r \<longrightarrow>
      (let text = lossy_decode p (fileencoding r) data;
           detected = findFileFormat text
             (List.map_filter as_FileFormat (js_split '','' (op_fileformats_get s)))
       in (\<forall>x. opt_fileformat options = Some x \<and> isFileFormat x \<longrightarrow>
             fileformat_name (fileformat r) = x) \<and>
          ((\<forall>x. opt_fileformat options = Some x \<longrightarrow> \<not> isFileFormat x) \<longrightarrow>
             (case detected of
                Some ff \<Rightarrow> fileformat r = ff
              | None \<Rightarrow> op_fileformat_getBuffer s bufnr = Some (fileformat r))) \<and>
          content r = splitText text (fileformat r)))"
proof (intro conjI allI impI)
  assume a: "buffers s bufnr \<noteq> None \<and>
      (\<forall>e. opt_fileencoding options = Some e \<and> e \<noteq> [] \<longrightarrow> supported p e)"
  then obtain enc t where d: "decoded p s data options = Inr (enc, t)"
    using decoded_Inr [of options p s data] by blast
  from a obtain ff where "op_fileformat_getBuffer s bufnr = Some ff"
    by (auto simp: op_fileformat_getBuffer_def)
  then show "\<exists>r. decode p s bufnr data options = Inr r"
    using d by (auto simp: decode_decoded nullish_def split: option.splits)
next
  fix r
  assume r: "decode p s bufnr data options = Inr r"
  then obtain enc t where d: "decoded p s data options = Inr (enc, t)"
    by (auto simp: decode_decoded split: sum.splits)
  have t: "t = lossy_decode p enc data" using d by (rule decoded_text)
  define detected where "detected = findFileFormat t
             (List.map_filter as_FileFormat (js_split '','' (op_fileformats_get s)))"
  from r d have n: "nullish (nullish
       (Option.bind (maybe (opt_fileformat options) isFileFormat) as_FileFormat) detected)
       (op_fileformat_getBuffer s bufnr) = Some (fileformat r)"
    and c: "content r = splitText t (fileformat r)" and e: "fileencoding r = enc"
    by (auto simp: decode_decoded detected_def split: option.splits)
  have 1: "fileformat_name (fileformat r) = x" if "opt_fileformat options = Some x" "isFileFormat x" for x
    using that n as_FileFormat_name [of x] by (auto simp: maybe_def nullish_def)
  have 2: "(case detected of
                Some ff \<Rightarrow> fileformat r = ff
              | None \<Rightarrow> op_fileformat_getBuffer s bufnr = Some (fileformat r))"
    if "\<forall>x. opt_fileformat options = Some x \<longrightarrow> \<not> isFileFormat x"
    using that n by (auto simp: maybe_def nullish_def split: option.splits)
  show "(let text = lossy_decode p (fileencoding r) data;
           detected = findFileFormat text
             (List.map_filter as_FileFormat (js_split '','' (op_fileformats_get s)))
       in (\<forall>x. opt_fileformat options = Some x \<and> isFileFormat x \<longrightarrow>
             fileformat_name (fileformat r) = x) \<and>
          ((\<forall>x. opt_fileformat options = Some x \<longrightarrow> \<not> isFileFormat x) \<longrightarrow>
             (case detected of
                Some ff \<Rightarrow> fileformat r = ff
              | None \<Rightarrow> op_fileformat_getBuffer s bufnr = Some (fileformat r))) \<and>
          content r = splitText text (fileformat r))"
    unfolding Let_def e t [symmetric] detected_def [symmetric]
    using 1 2 c by blast
qed

theorem decode_fileformat_witness:
  "buffers demo 2 \<noteq> None \<and> isFileFormat ''dos'' \<and>
   decode demo_platform demo 2 [0x61, 0x0D, 0x0A, 0x62]
     \<lparr>opt_fileformat = Some ''dos'', opt_fileencoding = None\<rparr> =
     Inr \<lparr>content = [''a'', ''b''], fileformat = Dos, fileencoding = ''utf-8''\<rparr> \<and>
   decode demo_platform demo 2 [0x61, 0x0D, 0x0A, 0x62]
     \<lparr>opt_fileformat = None, opt_fileencoding = None\<rparr> =
     Inr \<lparr>content = [''a'' @ [CR], ''b''], fileformat = Unix, fileencoding = ''utf-8''\<rparr> \<and>
   decode demo_platform (demo\<lparr>fileformats := ''dos,unix''\<rparr>) 2 [0x61, 0x62]
     \<lparr>opt_fileformat = None, opt_fileencoding = Some ''latin1''\<rparr> =
     Inr \<lparr>content = [''ab''], fileformat = Unix, fileencoding = ''latin1''\<rparr>"
proof -
  note t1 = decode_fileformat [of demo 2 "\<lparr>opt_fileformat = Some ''dos'', opt_fileencoding = None\<rparr>"
      demo_platform "[0x61, 0x0D, 0x0A, 0x62]"]
  note t2 = decode_fileformat [of demo 2 "\<lparr>opt_fileformat = None, opt_fileencoding = None\<rparr>"
      demo_platform "[0x61, 0x0D, 0x0A, 0x62]"]
  note t3 = decode_fileformat [of "demo\<lparr>fileformats := ''dos,unix''\<rparr>" 2
      "\<lparr>opt_fileformat = None, opt_fileencoding = Some ''latin1''\<rparr>" demo_platform "[0x61, 0x62]"]
  note ev = decode_def demo_platform_def demo_def op_fileformat_getBuffer_def
    op_fileformats_get_def op_fileencodings_get_def maybe_def isFileFormat_def nullish_def
    as_FileFormat_def List.map_filter_def splitText_def LF_def CR_def demo_buffer_def
    char_of_def bit_Suc_0_iff suffix_to_prefix TextDecoder_decode_def
  have b: "buffers demo 2 \<noteq> None" by (simp add: demo_def)
  have i: "isFileFormat ''dos''" by (simp add: isFileFormat_def)
  have e1: "decode demo_platform demo 2 [0x61, 0x0D, 0x0A, 0x62]
     \<lparr>opt_fileformat = Some ''dos'', opt_fileencoding = None\<rparr> =
     Inr \<lparr>content = [''a'', ''b''], fileformat = Dos, fileencoding = ''utf-8''\<rparr>"
    by (simp add: ev)
  have e2: "decode demo_platform demo 2 [0x61, 0x0D, 0x0A, 0x62]
     \<lparr>opt_fileformat = None, opt_fileencoding = None\<rparr> =
     Inr \<lparr>content = [''a'' @ [CR], ''b''], fileformat = Unix, fileencoding = ''utf-8''\<rparr>"
    by (simp add: ev)
  have e3: "decode demo_platform (demo\<lparr>fileformats := ''dos,unix''\<rparr>) 2 [0x61, 0x62]
     \<lparr>opt_fileformat = None, opt_fileencoding = Some ''latin1''\<rparr> =
     Inr \<lparr>content = [''ab''], fileformat = Unix, fileencoding = ''latin1''\<rparr>"
    by (simp add: ev)
  from t1 t2 t3 b i e1 e2 e3 show ?thesis by simp
qed

text \<open>
  Claim C1 as stated fails: with \<open>options.fileformat = "foo"\<close> the format of the result is
  not \<open>"foo"\<close> but the detected one.
\<close>

theorem decode_override_counterexample:
  "decode demo_platform demo 2 [0x61, 0x0A, 0x62]
     \<lparr>opt_fileformat = Some ''foo'', opt_fileencoding = None\<rparr> =
     Inr \<lparr>content = [''a'', ''b''], fileformat = Unix, fileencoding = ''utf-8''\<rparr> \<and>
   fileformat_name Unix \<noteq> ''foo''"
  by (simp add: decode_def demo_platform_def demo_def op_fileformat_getBuffer_def
    op_fileformats_get_def op_fileencodings_get_def maybe_def isFileFormat_def nullish_def
    as_FileFormat_def List.map_filter_def splitText_def LF_def CR_def demo_buffer_def
    char_of_def bit_Suc_0_iff suffix_to_prefix)

subsection \<open>Buffer options\<close>

lemma setbufvar_modifiable_buffers:
  "buffers (setbufvar_modifiable s n v) m =
     (if m = n then map_option (\<lambda>b. b\<lparr>b_modifiable := v\<rparr>) (buffers s n) else buffers s m)"
  by (simp add: setbufvar_modifiable_def split: option.splits)

lemma setbufvar_modified_buffers:
  "buffers (setbufvar_modified s n v) m =
     (if m = n then map_option (\<lambda>b. b\<lparr>b_modified := v\<rparr>) (buffers s n) else buffers s m)"
  by (simp add: setbufvar_modified_def split: option.splits)

text \<open>
  Claim C2. For a buffer that exists at entry, \<open>modifiable\<close> runs the action on the state
  in which \<open>'modifiable'\<close> of the buffer is on and returns the outcome of the action,
  thrown or returned; afterwards, if the buffer still exists, its \<open>'modified'\<close> and
  \<open>'modifiable'\<close> are what they were at entry. The same holds of a call nested in a
  call: the outer call restores the values of its own entry.
\<close>

theorem modifiable_restores_flags:
  assumes entry: "buffers s bufnr = Some b"
  shows "(let s1 = setbufvar_modifiable s bufnr True; out = modifiable bufnr executor s
          in getbufvar_modifiable s1 bufnr \<and> fst out = fst (executor s1) \<and>
             (\<forall>b'. buffers (snd out) bufnr = Some b' \<longrightarrow>
                b_modified b' = b_modified b \<and> b_modifiable b' = b_modifiable b)) \<and>
         (\<forall>b'. buffers (snd (modifiable bufnr (modifiable bufnr inner) s)) bufnr = Some b' \<longrightarrow>
                b_modified b' = b_modified b \<and> b_modifiable b' = b_modifiable b)"
  using entry
  by (auto simp: modifiable_def try_finally_def Let_def getbufvar_modifiable_def
      getbufvar_modified_def setbufvar_modifiable_buffers setbufvar_modified_buffers
      split: prod.splits sum.splits option.splits)

theorem modifiable_restores_flags_witness:
  "buffers demo 2 = Some (demo_buffer [''a'', ''b'']) \<and>
   fst (modifiable 2 demo_failing demo) = Inl (Thrown ''boom'') \<and>
   map_option b_modified (buffers (snd (demo_failing (setbufvar_modifiable demo 2 True))) 2) = Some True \<and>
   map_option b_modified (buffers (snd (modifiable 2 demo_failing demo)) 2) = Some False \<and>
   map_option b_modifiable (buffers (snd (modifiable 2 demo_failing demo)) 2) = Some False \<and>
   map_option b_modified (buffers (snd (modifiable 2 (modifiable 2 demo_failing) demo)) 2) = Some False \<and>
   map_option b_modifiable (buffers (snd (modifiable 2 (modifiable 2 demo_failing) demo)) 2) = Some False"
proof -
  have h: "buffers demo 2 = Some (demo_buffer [''a'', ''b''])"
    by (simp add: demo_def)
  note t = modifiable_restores_flags [OF h, of demo_failing demo_failing]
  have e1: "\<exists>b'. buffers (snd (modifiable 2 demo_failing demo)) 2 = Some b'"
    by (simp add: modifiable_def try_finally_def demo_failing_def h
        setbufvar_modifiable_buffers setbufvar_modified_buffers)
  have e2: "\<exists>b'. buffers (snd (modifiable 2 (modifiable 2 demo_failing) demo)) 2 = Some b'"
    by (simp add: modifiable_def try_finally_def demo_failing_def h
        setbufvar_modifiable_buffers setbufvar_modified_buffers)
  have e3: "map_option b_modified (buffers (snd (demo_failing (setbufvar_modifiable demo 2 True))) 2) = Some True"
    by (simp add: demo_failing_def h setbufvar_modifiable_buffers setbufvar_modified_buffers)
  have f: "b_modified (demo_buffer [''a'', ''b'']) = False" "b_modifiable (demo_buffer [''a'', ''b'']) = False"
    by (simp_all add: demo_buffer_def)
  have r: "fst (modifiable 2 demo_failing demo) = Inl (Thrown ''boom'')"
    using t by (simp add: Let_def demo_failing_def)
  show ?thesis
    using t e1 e2 e3 f h r by (auto simp: Let_def)
qed

subsection \<open>append\<close>

lemma ensurePrerequisites_buffers:
  "buffers (snd (ensurePrerequisites u s)) = buffers s"
  by (simp add: ensurePrerequisites_def execute_script_def split: option.splits jsvalue.splits)

lemma ensurePrerequisites_Inr: "\<exists>sfx. fst (ensurePrerequisites u s) = Inr sfx"
  by (simp add: ensurePrerequisites_def split: option.splits jsvalue.splits)

lemma ensure_line_buffers:
  "buffers (snd (ensure bufnr fn_line_dot s)) = buffers s"
  by (simp add: ensure_def Let_def and_then_def try_finally_def fn_line_dot_def
      cmd_buffer_def win_gotoid_def split: prod.splits sum.splits)

lemma call_function_buffers:
  "buffers (snd (f s)) n = buffers s n \<Longrightarrow> buffers (snd (call_function sfx f s)) n = buffers s n"
  by (simp add: call_function_def)

lemma Append_result:
  "DenopsStdBufferAppend bufnr lnum repl s =
     (Inr (),
      case buffers s bufnr of
        None \<Rightarrow> s
      | Some b \<Rightarrow>
          if lnum < 0 \<or> int (length (b_lines b)) < lnum \<or> repl = [] then
            setbufvar_modifiable (setbufvar_modified (setbufvar_modifiable s bufnr True) bufnr (b_modified b)) bufnr (b_modifiable b)
          else setbufvar_modifiable (setbufvar_modified
             (put_lines (setbufvar_modifiable s bufnr True) bufnr (b\<lparr>b_modifiable := True\<rparr>)
                (take (nat lnum) (b_lines b) @ repl @ drop (nat lnum) (b_lines b)))
             bufnr (b_modified b)) bufnr (b_modifiable b))"
  by (auto simp: DenopsStdBufferAppend_def Let_def and_then_def appendbufline_def
      getbufvar_modified_def getbufvar_modifiable_def setbufvar_modifiable_buffers
      setbufvar_modifiable_def setbufvar_modified_def
      split: option.splits)

lemma Append_flags:
  "map_option b_modified (buffers (snd (DenopsStdBufferAppend bufnr lnum repl s)) bufnr) =
     map_option b_modified (buffers s bufnr) \<and>
   map_option b_modifiable (buffers (snd (DenopsStdBufferAppend bufnr lnum repl s)) bufnr) =
     map_option b_modifiable (buffers s bufnr)"
  by (auto simp: Append_result put_lines_def setbufvar_modifiable_buffers setbufvar_modified_buffers
       split: option.splits)


lemma append_unfold:
  "append ulid bufnr repl lnum s =
     (case ensurePrerequisites ulid s of (r0, s0) \<Rightarrow>
        (case r0 of Inl e \<Rightarrow> (Inl e, s0)
         | Inr sfx \<Rightarrow>
            (case (case lnum of Some n \<Rightarrow> (Inr n, s0) | None \<Rightarrow> ensure bufnr fn_line_dot s0) of
               (Inl e, s1) \<Rightarrow> (Inl e, s1)
             | (Inr n, s1) \<Rightarrow> call_function sfx (DenopsStdBufferAppend bufnr n repl) s1)))"
  by (simp add: append_def and_then_def split: prod.splits sum.splits option.splits)

lemma append_flags:
  "map_option b_modified (buffers (snd (append ulid bufnr repl lnum s)) bufnr) =
     map_option b_modified (buffers s bufnr) \<and>
   map_option b_modifiable (buffers (snd (append ulid bufnr repl lnum s)) bufnr) =
     map_option b_modifiable (buffers s bufnr)"
proof -
  obtain r0 s0 where e0: "ensurePrerequisites ulid s = (r0, s0)" by (cases "ensurePrerequisites ulid s")
  have b0: "buffers s0 = buffers s" using ensurePrerequisites_buffers [of ulid s] e0 by simp
  obtain r1 s1 where e1: "(case lnum of Some n \<Rightarrow> (Inr n, s0) | None \<Rightarrow> ensure bufnr fn_line_dot s0) = (r1, s1)"
    by (cases "(case lnum of Some n \<Rightarrow> (Inr n, s0) | None \<Rightarrow> ensure bufnr fn_line_dot s0)")
  have b1: "buffers s1 = buffers s"
    using e1 ensure_line_buffers [of bufnr s0] b0 by (auto split: option.splits)
  show ?thesis
    using e0 e1 b0 b1 Append_flags [of bufnr _ repl s1]
    by (auto simp: append_unfold call_function_def split: sum.splits)
qed

lemma ensurePrerequisites_registered:
  assumes "\<forall>x. d_context s cacheKey = Some (JString x) \<longrightarrow> x \<in> script_functions s"
  shows "\<exists>sfx s0. ensurePrerequisites ulid s = (Inr sfx, s0) \<and> buffers s0 = buffers s \<and>
           sfx \<in> script_functions s0"
proof (cases "d_context s cacheKey")
  case None
  then show ?thesis by (simp add: ensurePrerequisites_def execute_script_def)
next
  case (Some v)
  with assms show ?thesis
    by (cases v) (simp_all add: ensurePrerequisites_def execute_script_def)
qed

text \<open>
  Claim C8. After \<open>append\<close>, \<open>'modified'\<close> and \<open>'modifiable'\<close> of the buffer are what they
  were before the call, on every path of the call. When the buffer exists, the line
  number is given and in range, and the identifier of the session has its functions
  defined, the call succeeds and the lines are inserted below that line.
\<close>

theorem append_restores_flags:
  "map_option b_modified (buffers (snd (append ulid bufnr repl lnum s)) bufnr) =
     map_option b_modified (buffers s bufnr) \<and>
   map_option b_modifiable (buffers (snd (append ulid bufnr repl lnum s)) bufnr) =
     map_option b_modifiable (buffers s bufnr) \<and>
   (\<forall>b n. buffers s bufnr = Some b \<and> lnum = Some n \<and> 0 \<le> n \<and> n \<le> int (length (b_lines b)) \<and>
      (\<forall>x. d_context s cacheKey = Some (JString x) \<longrightarrow> x \<in> script_functions s) \<longrightarrow>
      fst (append ulid bufnr repl lnum s) = Inr () \<and>
      map_option b_lines (buffers (snd (append ulid bufnr repl lnum s)) bufnr) =
        Some (take (nat n) (b_lines b) @ repl @ drop (nat n) (b_lines b)))"
proof -
  have ins: "fst (append ulid bufnr repl (Some n) s) = Inr () \<and>
      map_option b_lines (buffers (snd (append ulid bufnr repl (Some n) s)) bufnr) =
        Some (take (nat n) (b_lines b) @ repl @ drop (nat n) (b_lines b))"
    if b: "buffers s bufnr = Some b" and n: "0 \<le> n" "n \<le> int (length (b_lines b))"
      and reg: "\<forall>x. d_context s cacheKey = Some (JString x) \<longrightarrow> x \<in> script_functions s"
    for b n
  proof -
    obtain sfx s0 where e0: "ensurePrerequisites ulid s = (Inr sfx, s0)"
      and b0: "buffers s0 = buffers s" and r0: "sfx \<in> script_functions s0"
      using ensurePrerequisites_registered [OF reg] by blast
    show ?thesis
      using e0 b0 r0 b n
      by (auto simp: append_unfold call_function_def Append_result put_lines_def
          setbufvar_modifiable_buffers setbufvar_modified_buffers)
  qed
  show ?thesis using append_flags [of ulid bufnr repl lnum s] ins by blast
qed

theorem append_restores_flags_witness:
  "buffers demo 2 = Some (demo_buffer [''a'', ''b'']) \<and>
   fst (append ''01A'' 2 [''x''] (Some 1) demo) = Inr () \<and>
   map_option b_lines (buffers (snd (append ''01A'' 2 [''x''] (Some 1) demo)) 2) =
     Some [''a'', ''x'', ''b''] \<and>
   map_option b_modified (buffers (snd (append ''01A'' 2 [''x''] (Some 1) demo)) 2) = Some False \<and>
   map_option b_modifiable (buffers (snd (append ''01A'' 2 [''x''] (Some 1) demo)) 2) = Some False \<and>
   map_option b_lines (buffers (snd (append ''01A'' 2 [''x''] None demo)) 2) =
     Some [''a'', ''x'', ''b''] \<and>
   map_option b_modified (buffers (snd (append ''01A'' 2 [''x''] None demo)) 2) = Some False \<and>
   map_option b_modifiable (buffers (snd (append ''01A'' 2 [''x''] None demo)) 2) = Some False \<and>
   win_getid (snd (append ''01A'' 2 [''x''] None demo)) = 1000"
proof -
  have h: "buffers demo 2 = Some (demo_buffer [''a'', ''b''])"
    by (simp add: demo_def)
  have c: "\<forall>x. d_context demo cacheKey = Some (JString x) \<longrightarrow> x \<in> script_functions demo"
    by (simp add: demo_def)
  note t = append_restores_flags [of "''01A''" 2 "[''x'']" "Some 1" demo]
  note u = append_restores_flags [of "''01A''" 2 "[''x'']" None demo]
  have l: "b_lines (demo_buffer [''a'', ''b'']) = [''a'', ''b'']"
    "b_modified (demo_buffer [''a'', ''b'']) = False"
    "b_modifiable (demo_buffer [''a'', ''b'']) = False"
    by (simp_all add: demo_buffer_def)
  have n: "map_option b_lines (buffers (snd (append ''01A'' 2 [''x''] None demo)) 2) =
     Some [''a'', ''x'', ''b'']"
    "win_getid (snd (append ''01A'' 2 [''x''] None demo)) = 1000"
    by (simp_all add: append_unfold ensurePrerequisites_def execute_script_def demo_def
        ensure_def fn_bufnr_def win_getid_def bufwinid_def and_then_def try_finally_def
        win_gotoid_def fn_line_dot_def call_function_def Append_result demo_buffer_def
        put_lines_def setbufvar_modifiable_def setbufvar_modified_def)
  show ?thesis
    using t u h c l n by simp
qed

subsection \<open>ensurePrerequisites\<close>

text \<open>
  Claim C9. On the first call for a session (no string under the key in its context)
  \<open>ensurePrerequisites\<close> returns the identifier just generated, stores it in the context
  and executes the script, which defines the functions and the cache of that identifier.
  Every later call, in the state it left or in any later state whose context still
  holds the identifier, returns that identifier and leaves the state as it is.
\<close>

theorem ensurePrerequisites_memoized:
  assumes first: "\<forall>x. d_context s cacheKey \<noteq> Some (JString x)"
    and later: "d_context s2 cacheKey = d_context (snd (ensurePrerequisites ulid s)) cacheKey"
  shows "ensurePrerequisites ulid s =
           (Inr ulid, execute_script ulid (s\<lparr>d_context := (d_context s)(cacheKey \<mapsto> JString ulid)\<rparr>)) \<and>
         ulid \<in> script_functions (snd (ensurePrerequisites ulid s)) \<and>
         concrete_cache (snd (ensurePrerequisites ulid s)) ulid = Some Map.empty \<and>
         ensurePrerequisites ulid' (snd (ensurePrerequisites ulid s)) =
           (Inr ulid, snd (ensurePrerequisites ulid s)) \<and>
         ensurePrerequisites ulid' s2 = (Inr ulid, s2)"
proof -
  have 1: "ensurePrerequisites ulid s =
           (Inr ulid, execute_script ulid (s\<lparr>d_context := (d_context s)(cacheKey \<mapsto> JString ulid)\<rparr>))"
    using first
    by (cases "d_context s cacheKey") (auto simp: ensurePrerequisites_def split: jsvalue.splits)
  have 2: "d_context (snd (ensurePrerequisites ulid s)) cacheKey = Some (JString ulid)"
    by (simp add: 1 execute_script_def)
  have 3: "ensurePrerequisites ulid' t = (Inr ulid, t)" if "d_context t cacheKey = Some (JString ulid)" for t
    using that by (simp add: ensurePrerequisites_def)
  show ?thesis
    using 1 2 3 [of "snd (ensurePrerequisites ulid s)"] 3 [of s2] later
    by (simp add: execute_script_def)
qed

theorem ensurePrerequisites_memoized_witness:
  "d_context demo cacheKey = None \<and>
   fst (ensurePrerequisites ''01A'' demo) = Inr ''01A'' \<and>
   ''01A'' \<in> script_functions (snd (ensurePrerequisites ''01A'' demo)) \<and>
   ensurePrerequisites ''01B'' (snd (ensurePrerequisites ''01A'' demo)) =
     (Inr ''01A'', snd (ensurePrerequisites ''01A'' demo)) \<and>
   ensurePrerequisites ''01B'' ((snd (ensurePrerequisites ''01A'' demo))\<lparr>curwin := 1001\<rparr>) =
     (Inr ''01A'', (snd (ensurePrerequisites ''01A'' demo))\<lparr>curwin := 1001\<rparr>)"
proof -
  have h0: "d_context demo cacheKey = None"
    by (simp add: demo_def)
  have h1: "\<forall>x. d_context demo cacheKey \<noteq> Some (JString x)"
    by (simp add: h0)
  have h2: "d_context ((snd (ensurePrerequisites ''01A'' demo))\<lparr>curwin := 1001\<rparr>) cacheKey =
      d_context (snd (ensurePrerequisites ''01A'' demo)) cacheKey"
    by simp
  note t = ensurePrerequisites_memoized [OF h1 h2, of "''01B''"]
  have "fst (ensurePrerequisites ''01A'' demo) = Inr ''01A''"
    by (simp add: conjunct1 [OF t])
  with h0 t show ?thesis
    by blast
qed

subsection \<open>ensure\<close>

lemma find_fst_map_of:
  "distinct (map fst ws) \<Longrightarrow> find P ws = Some w \<Longrightarrow> map_of ws (fst w) = Some (snd w)"
  by (induction ws) (auto split: if_splits simp: rev_image_eqI)

lemma find_snd: "find (\<lambda>w. snd w = b) ws = Some w \<Longrightarrow> snd w = b \<and> w \<in> set ws"
  by (induction ws) (auto split: if_splits)

lemma bufwinid_shows:
  assumes "distinct (map fst (windows s))" "bufwinid s bufnr = w" "w \<noteq> - 1"
    "list_all (\<lambda>w. 0 < fst w) (windows s)"
  shows "map_of (windows s) w = Some bufnr \<and> w \<in> fst ` set (windows s)"
proof (cases "find (\<lambda>w. snd w = bufnr) (windows s)")
  case None
  with assms show ?thesis by (simp add: bufwinid_def)
next
  case (Some x)
  with assms have "fst x = w" by (simp add: bufwinid_def)
  with find_fst_map_of [OF assms(1) Some] find_snd [OF Some] show ?thesis by force
qed

lemma bufwinid_none:
  "bufwinid s bufnr = - 1 \<Longrightarrow> list_all (\<lambda>w. 0 < fst w) (windows s) \<Longrightarrow> bufnr \<notin> snd ` set (windows s)"
  unfolding bufwinid_def
  by (auto simp: find_None_iff list_all_iff split: option.splits dest!: find_snd)

lemma map_of_cmd_buffer:
  "c \<in> fst ` set ws \<Longrightarrow>
   map_of (map (\<lambda>w. if fst w = c then (fst w, b) else w) ws) c = Some b"
  by (induction ws) auto

lemma fst_set_cmd_buffer:
  "fst ` set (map (\<lambda>w. if fst w = c then (fst w, b) else w) ws) = fst ` set ws"
  by (induction ws) auto

text \<open>
  Claim C3, amended. When the current window is the first window of the tab page that
  shows the buffer, the buffer is the current one and \<open>ensure\<close> is the action itself,
  with no command of its own. When the first window that shows the buffer is another
  one, the action runs with that window current and the buffer in it, and on every
  exit of the action \<open>win_gotoid\<close> of the window that was current is called on the state
  the action left: that window is current again if it still exists. When no window
  shows the buffer, \<open>ensure\<close> fails with E86 and the action does not run if there is
  no such buffer; otherwise the action runs with the buffer in the current window, and
  on every exit the current window is switched back to the buffer it showed, or E86 is
  thrown when that buffer is gone.
\<close>

theorem ensure_cases:
  assumes v: "valid_windows s"
  shows
   "(win_getid s = bufwinid s bufnr \<longrightarrow> fn_bufnr s = bufnr \<and> ensure bufnr executor s = executor s) \<and>
    (bufwinid s bufnr \<noteq> - 1 \<and> bufwinid s bufnr \<noteq> win_getid s \<longrightarrow>
       (let s1 = s\<lparr>curwin := bufwinid s bufnr\<rparr>; out = executor s1
        in fn_bufnr s1 = bufnr \<and>
           ensure bufnr executor s = (fst out, snd (win_gotoid (win_getid s) (snd out))) \<and>
           (win_getid s \<in> fst ` set (windows (snd out)) \<longrightarrow>
              win_getid (snd (ensure bufnr executor s)) = win_getid s))) \<and>
    (bufwinid s bufnr = - 1 \<and> buffers s bufnr = None \<longrightarrow>
       ensure bufnr executor s = (Inl E86, s)) \<and>
    (bufwinid s bufnr = - 1 \<and> buffers s bufnr \<noteq> None \<longrightarrow>
       (let s1 = snd (cmd_buffer bufnr s); out = executor s1
        in fn_bufnr s1 = bufnr \<and> win_getid s1 = win_getid s \<and>
           ensure bufnr executor s =
             (if buffers (snd out) (fn_bufnr s) = None then (Inl E86, snd out)
              else (fst out, snd (cmd_buffer (fn_bufnr s) (snd out)))) \<and>
           (buffers (snd out) (fn_bufnr s) \<noteq> None \<and> curwin (snd out) \<in> fst ` set (windows (snd out)) \<longrightarrow>
              fn_bufnr (snd (ensure bufnr executor s)) = fn_bufnr s)))"
proof -
  from v have d: "distinct (map fst (windows s))" and c: "curwin s \<in> fst ` set (windows s)"
    and p: "list_all (\<lambda>w. 0 < fst w) (windows s)"
    by (simp_all add: valid_windows_def)
  from c p have c1: "curwin s \<noteq> - 1" by (auto simp: list_all_iff)
  have A: "fn_bufnr s = bufnr \<and> ensure bufnr executor s = executor s" if "win_getid s = bufwinid s bufnr"
    using that bufwinid_shows [OF d refl _ p, of bufnr] c1
    by (simp add: fn_bufnr_def ensure_def win_getid_def)
  have B: "(let s1 = s\<lparr>curwin := bufwinid s bufnr\<rparr>; out = executor s1
        in fn_bufnr s1 = bufnr \<and>
           ensure bufnr executor s = (fst out, snd (win_gotoid (win_getid s) (snd out))) \<and>
           (win_getid s \<in> fst ` set (windows (snd out)) \<longrightarrow>
              win_getid (snd (ensure bufnr executor s)) = win_getid s))"
    if "bufwinid s bufnr \<noteq> - 1" "bufwinid s bufnr \<noteq> win_getid s"
    using that bufwinid_shows [OF d refl _ p, of bufnr]
    by (auto simp: Let_def fn_bufnr_def ensure_def win_getid_def and_then_def try_finally_def
        win_gotoid_def split: prod.splits sum.splits)
  have C: "ensure bufnr executor s = (Inl E86, s)" if "bufwinid s bufnr = - 1" "buffers s bufnr = None"
    using that c1 by (simp add: ensure_def win_getid_def and_then_def cmd_buffer_def)
  have D: "(let s1 = snd (cmd_buffer bufnr s); out = executor s1
        in fn_bufnr s1 = bufnr \<and> win_getid s1 = win_getid s \<and>
           ensure bufnr executor s =
             (if buffers (snd out) (fn_bufnr s) = None then (Inl E86, snd out)
              else (fst out, snd (cmd_buffer (fn_bufnr s) (snd out)))) \<and>
           (buffers (snd out) (fn_bufnr s) \<noteq> None \<and> curwin (snd out) \<in> fst ` set (windows (snd out)) \<longrightarrow>
              fn_bufnr (snd (ensure bufnr executor s)) = fn_bufnr s))"
    if "bufwinid s bufnr = - 1" "buffers s bufnr \<noteq> None"
    using that c1 c
    by (auto simp: Let_def fn_bufnr_def ensure_def win_getid_def and_then_def try_finally_def
        cmd_buffer_def map_of_cmd_buffer split: prod.splits sum.splits)
  show ?thesis using A B C D by blast
qed

theorem ensure_cases_witness:
  "valid_windows demo \<and>
   win_getid demo = bufwinid demo 1 \<and> ensure 1 demo_report demo = (Inr 1000, demo) \<and>
   bufwinid demo 2 = 1001 \<and> ensure 2 demo_report demo = (Inr 1001, demo) \<and>
   fst (ensure 2 demo_failing demo) = Inl (Thrown ''boom'') \<and>
   win_getid (snd (ensure 2 demo_failing demo)) = 1000 \<and>
   bufwinid demo 9 = - 1 \<and> buffers demo 9 = None \<and> ensure 9 demo_report demo = (Inl E86, demo) \<and>
   bufwinid demo 3 = - 1 \<and> fst (ensure 3 demo_failing demo) = Inl (Thrown ''boom'') \<and>
   fn_bufnr (snd (cmd_buffer 3 demo)) = 3 \<and>
   fn_bufnr (snd (ensure 3 demo_failing demo)) = 1 \<and>
   windows (snd (ensure 3 demo_failing demo)) = windows demo"
proof -
  have v: "valid_windows demo" by (simp add: valid_windows_def demo_def)
  note t1 = ensure_cases [OF v, of 1 demo_report]
  note t2 = ensure_cases [OF v, of 2 demo_report]
  note t3 = ensure_cases [OF v, of 2 demo_failing]
  note t4 = ensure_cases [OF v, of 9 demo_report]
  note t5 = ensure_cases [OF v, of 3 demo_failing]
  note ev = demo_def fn_bufnr_def demo_report_def demo_failing_def ensure_def win_getid_def
    bufwinid_def and_then_def try_finally_def win_gotoid_def cmd_buffer_def
    setbufvar_modified_def setbufvar_modifiable_def
  have w: "win_getid demo = bufwinid demo 1" "bufwinid demo 2 = 1001" "bufwinid demo 9 = - 1"
    "buffers demo 9 = None" "bufwinid demo 3 = - 1" "win_getid demo = 1000" "fn_bufnr demo = 1"
    by (simp_all add: ev)
  have a: "ensure 1 demo_report demo = (Inr 1000, demo)"
    using t1 w by (simp add: demo_report_def)
  have b: "ensure 2 demo_report demo = (Inr 1001, demo)"
    by (simp add: ev)
  have c: "fst (ensure 2 demo_failing demo) = Inl (Thrown ''boom'')"
    "win_getid (snd (ensure 2 demo_failing demo)) = 1000"
    by (simp_all add: ev)
  have d: "ensure 9 demo_report demo = (Inl E86, demo)"
    using t4 w by simp
  have e: "fst (ensure 3 demo_failing demo) = Inl (Thrown ''boom'')"
    "fn_bufnr (snd (cmd_buffer 3 demo)) = 3"
    "fn_bufnr (snd (ensure 3 demo_failing demo)) = 1"
    "windows (snd (ensure 3 demo_failing demo)) = windows demo"
    by (simp_all add: ev)
  from v t2 t3 t5 w a b c d e show ?thesis by simp
qed

text \<open>
  Claim C3 as stated fails: buffer 2 is the current buffer, in window 1002, and window
  1001 shows it too. The action is not run in place: it runs with window 1001 current.
\<close>

theorem ensure_in_place_counterexample:
  "fn_bufnr (demo\<lparr>curwin := 1002\<rparr>) = 2 \<and>
   demo_report (demo\<lparr>curwin := 1002\<rparr>) = (Inr 1002, demo\<lparr>curwin := 1002\<rparr>) \<and>
   ensure 2 demo_report (demo\<lparr>curwin := 1002\<rparr>) = (Inr 1001, demo\<lparr>curwin := 1002\<rparr>) \<and>
   ensure 2 demo_report (demo\<lparr>curwin := 1002\<rparr>) \<noteq> demo_report (demo\<lparr>curwin := 1002\<rparr>)"
  by (simp add: demo_def fn_bufnr_def demo_report_def ensure_def win_getid_def bufwinid_def
      and_then_def try_finally_def win_gotoid_def)

subsection \<open>concrete\<close>

lemma Replace_plain:
  assumes "buffers s bufnr = Some b" "repl \<noteq> []"
  shows "DenopsStdBufferReplace bufnr repl None None s =
           (Inr (), s\<lparr>buffers := (buffers s)(bufnr \<mapsto> b\<lparr>b_lines := repl\<rparr>)\<rparr>)"
  using assms
  by (auto simp: DenopsStdBufferReplace_def Let_def and_then_def setbufline_1_def
      deletebufline_to_end_def put_lines_def getbufvar_modified_def getbufvar_modifiable_def
      setbufvar_modifiable_def setbufvar_modified_def)

lemma fn_bufnr_buffers [simp]: "fn_bufnr (s\<lparr>buffers := x\<rparr>) = fn_bufnr s"
  by (simp add: fn_bufnr_def)

lemma fn_bufnr_cache [simp]: "fn_bufnr (s\<lparr>concrete_cache := x\<rparr>) = fn_bufnr s"
  by (simp add: fn_bufnr_def)

lemma fn_bufnr_autocmds [simp]: "fn_bufnr (s\<lparr>autocmds := x\<rparr>) = fn_bufnr s"
  by (simp add: fn_bufnr_def)

lemma hooked_edit_buffer: "hooked sfx bufnr s \<Longrightarrow> hooked sfx bufnr (edit_buffer n ls ft s)"
  by (auto simp: hooked_def edit_buffer_def split: option.splits)

lemma hooked_focus: "hooked sfx bufnr s \<Longrightarrow> hooked sfx bufnr (s\<lparr>windows := ws, curwin := w\<rparr>)"
  by (simp add: hooked_def)

lemma edit_buffer_fn_bufnr: "fn_bufnr (edit_buffer n ls ft s) = fn_bufnr s"
  by (simp add: edit_buffer_def split: option.splits)

lemma write_hook:
  assumes "hooked sfx bufnr s" "concrete_cache s sfx = Some table" "buffers s bufnr = Some b"
    "fn_bufnr s = bufnr"
  shows "doautocmd BufWriteCmd s =
           s\<lparr>concrete_cache := (concrete_cache s)(sfx \<mapsto>
              table(bufnr \<mapsto> \<lparr>c_filetype = b_filetype b, c_content = b_lines b\<rparr>))\<rparr>"
  using assms
  by (simp add: hooked_def doautocmd_def call_function_def DenopsStdBufferConcreteStore_def
      get_filetype_def getline_all_def)

lemma read_hook:
  assumes "hooked sfx bufnr s" "concrete_cache s sfx = Some table"
    "table bufnr = Some cache" "c_content cache \<noteq> []" "buffers s bufnr = Some b"
    "fn_bufnr s = bufnr"
  shows "doautocmd BufReadCmd s =
           s\<lparr>buffers := (buffers s)(bufnr \<mapsto>
              b\<lparr>b_lines := c_content cache, b_filetype := c_filetype cache\<rparr>)\<rparr>"
  using assms
  by (simp add: hooked_def doautocmd_def call_function_def DenopsStdBufferConcreteRestore_def
      Replace_plain and_then_def let_filetype_def)

lemma concrete_hooked:
  assumes ex: "buffers s bufnr \<noteq> None"
    and sess: "\<forall>x. d_context s cacheKey = Some (JString x) \<longrightarrow>
                 x \<in> script_functions s \<and> concrete_cache s x \<noteq> None"
    and sfx: "fst (ensurePrerequisites ulid s) = Inr sfx"
    and hooks: "\<forall>a\<in>set (autocmds s). au_pattern a = BufferLocal bufnr \<longrightarrow> au_group a = group_concrete sfx"
  shows "fst (concrete ulid bufnr s) = Inr () \<and> hooked sfx bufnr (snd (concrete ulid bufnr s)) \<and>
         concrete_cache (snd (concrete ulid bufnr s)) sfx \<noteq> None \<and>
         buffers (snd (concrete ulid bufnr s)) = buffers s"
proof -
  obtain s0 where e0: "ensurePrerequisites ulid s = (Inr sfx, s0)"
    using sfx by (cases "ensurePrerequisites ulid s") simp
  have p0: "sfx \<in> script_functions s0 \<and> concrete_cache s0 sfx \<noteq> None \<and> buffers s0 = buffers s \<and>
      windows s0 = windows s \<and> curwin s0 = curwin s \<and>
      (\<forall>a\<in>set (autocmds s0). au_pattern a = BufferLocal bufnr \<longrightarrow> au_group a = group_concrete sfx)"
  proof (cases "d_context s cacheKey")
    case None
    with e0 hooks show ?thesis
      by (auto simp: ensurePrerequisites_def execute_script_def on_stop_def)
  next
    case (Some v)
    with e0 hooks sess show ?thesis
      by (cases v) (auto simp: ensurePrerequisites_def execute_script_def on_stop_def)
  qed
  obtain table0 where t0: "concrete_cache s0 sfx = Some table0" using p0 by blast
  have f0: "filter (\<lambda>a. au_event a = ev \<and> au_pattern a = BufferLocal bufnr)
      (filter (\<lambda>a. \<not> (au_group a = group_concrete sfx \<and> au_pattern a = BufferLocal bufnr)) (autocmds s0)) = []" for ev
    using p0 by (auto simp: filter_empty_conv)
  have ex0: "buffers s0 bufnr \<noteq> None" using p0 ex by simp
  obtain s1 where e1: "define_concrete_hooks sfx bufnr s0 = (Inr (), s1)"
    and a1: "autocmds s1 =
            filter (\<lambda>a. \<not> (au_group a = group_concrete sfx \<and> au_pattern a = BufferLocal bufnr))
              (autocmds s0) @
            [\<lparr>au_group = group_concrete sfx, au_event = BufWriteCmd,
              au_pattern = BufferLocal bufnr, au_command = CallConcreteStore sfx\<rparr>,
             \<lparr>au_group = group_concrete sfx, au_event = BufReadCmd,
              au_pattern = BufferLocal bufnr, au_command = CallConcreteRestore sfx\<rparr>]"
    and r1: "script_functions s1 = script_functions s0" "concrete_cache s1 = concrete_cache s0"
      "buffers s1 = buffers s0"
    using ex0 by (simp add: define_concrete_hooks_def)
  obtain s2 where e2: "call_function sfx (DenopsStdBufferConcreteStore sfx) s1 = (Inr (), s2)"
    and r2: "script_functions s2 = script_functions s1" "autocmds s2 = autocmds s1"
      "buffers s2 = buffers s1" "concrete_cache s2 sfx \<noteq> None"
    using p0 t0 r1 by (simp add: call_function_def DenopsStdBufferConcreteStore_def)
  have c: "concrete ulid bufnr s = (Inr (), s2)"
    using e0 e1 e2 by (simp add: concrete_def and_then_def)
  have h: "hooked sfx bufnr s2"
    unfolding hooked_def using r2 r1 p0 a1 f0 by simp
  show ?thesis using c h r2 r1 p0 by simp
qed


lemma edit_buffer_buffers:
  "buffers s bufnr = Some b \<Longrightarrow>
   buffers (edit_buffer bufnr ls ft s) bufnr = Some (b\<lparr>b_lines := ls, b_filetype := ft, b_modified := True\<rparr>)"
  by (simp add: edit_buffer_def)

lemma edit_buffer_cache: "concrete_cache (edit_buffer bufnr ls ft s) = concrete_cache s"
  by (simp add: edit_buffer_def split: option.splits)

text \<open>
  Claim C4. \<open>concrete\<close> is called for a buffer that exists, in a session whose
  identifier, if it has one, has its functions and cache defined, and no autocommand of
  another group is defined for the buffer. Then \<open>concrete\<close> succeeds. Later the buffer is
  the current one, in whatever windows; whatever text \<open>C1\<close> and file type \<open>F1\<close> it has
  when \<open>BufWriteCmd\<close> fires, and whatever they are changed to afterwards, after
  \<open>BufReadCmd\<close> the buffer has the text \<open>C1\<close> and the file type \<open>F1\<close>.
  \<open>DenopsStdBufferConcreteRestore\<close> with no snapshot for the current buffer returns and
  changes nothing.
\<close>

theorem concrete_restores_latest_snapshot:
  assumes ex: "buffers s bufnr \<noteq> None"
    and sess: "\<forall>x. d_context s cacheKey = Some (JString x) \<longrightarrow>
                 x \<in> script_functions s \<and> concrete_cache s x \<noteq> None"
    and sfx: "fst (ensurePrerequisites ulid s) = Inr sfx"
    and hooks: "\<forall>a\<in>set (autocmds s). au_pattern a = BufferLocal bufnr \<longrightarrow> au_group a = group_concrete sfx"
    and shown: "map_of ws w = Some bufnr"
    and c1: "C1 \<noteq> []"
  shows "(let s1 = (snd (concrete ulid bufnr s))\<lparr>windows := ws, curwin := w\<rparr>;
              s2 = doautocmd BufWriteCmd (edit_buffer bufnr C1 F1 s1);
              s3 = doautocmd BufReadCmd (edit_buffer bufnr D FD s2)
          in fst (concrete ulid bufnr s) = Inr () \<and>
             map_option b_lines (buffers s3 bufnr) = Some C1 \<and>
             map_option b_filetype (buffers s3 bufnr) = Some F1) \<and>
         (\<forall>t table. concrete_cache t sfx = Some table \<and> table (fn_bufnr t) = None \<longrightarrow>
            DenopsStdBufferConcreteRestore sfx t = (Inr (), t))"
proof -
  define s1 where "s1 = (snd (concrete ulid bufnr s))\<lparr>windows := ws, curwin := w\<rparr>"
  define e1 where "e1 = edit_buffer bufnr C1 F1 s1"
  define s2 where "s2 = doautocmd BufWriteCmd e1"
  define e2 where "e2 = edit_buffer bufnr D FD s2"
  define s3 where "s3 = doautocmd BufReadCmd e2"
  note k = concrete_hooked [OF ex sess sfx hooks]
  from k have ok: "fst (concrete ulid bufnr s) = Inr ()" and h1: "hooked sfx bufnr s1"
    and b1: "buffers s1 = buffers s" by (simp_all add: s1_def hooked_focus)
  from k obtain table where t1: "concrete_cache s1 sfx = Some table" by (auto simp: s1_def)
  from ex b1 obtain b where b: "buffers s1 bufnr = Some b" by auto
  have f1: "fn_bufnr s1 = bufnr" using shown by (simp add: s1_def fn_bufnr_def)
  have he1: "hooked sfx bufnr e1" unfolding e1_def by (rule hooked_edit_buffer [OF h1])
  have fe1: "fn_bufnr e1 = bufnr" by (simp add: e1_def edit_buffer_fn_bufnr f1)
  have be1: "buffers e1 bufnr = Some (b\<lparr>b_lines := C1, b_filetype := F1, b_modified := True\<rparr>)"
    unfolding e1_def by (rule edit_buffer_buffers [OF b])
  have te1: "concrete_cache e1 sfx = Some table" by (simp add: e1_def edit_buffer_cache t1)
  have s2eq: "s2 = e1\<lparr>concrete_cache := (concrete_cache e1)(sfx \<mapsto>
              table(bufnr \<mapsto> \<lparr>c_filetype = F1, c_content = C1\<rparr>))\<rparr>"
    unfolding s2_def using write_hook [OF he1 te1 be1 fe1] by simp
  have h2: "hooked sfx bufnr s2" using he1 by (simp add: s2eq hooked_def)
  have f2: "fn_bufnr s2 = bufnr" by (simp add: s2eq fe1)
  have b2: "buffers s2 bufnr = Some (b\<lparr>b_lines := C1, b_filetype := F1, b_modified := True\<rparr>)"
    by (simp add: s2eq be1)
  have he2: "hooked sfx bufnr e2" unfolding e2_def by (rule hooked_edit_buffer [OF h2])
  have fe2: "fn_bufnr e2 = bufnr" by (simp add: e2_def edit_buffer_fn_bufnr f2)
  have te2: "concrete_cache e2 sfx = Some (table(bufnr \<mapsto> \<lparr>c_filetype = F1, c_content = C1\<rparr>))"
    by (simp add: e2_def edit_buffer_cache s2eq)
  obtain b' where be2: "buffers e2 bufnr = Some b'"
    unfolding e2_def using edit_buffer_buffers [OF b2] by blast
  have "s3 = e2\<lparr>buffers := (buffers e2)(bufnr \<mapsto> b'\<lparr>b_lines := C1, b_filetype := F1\<rparr>)\<rparr>"
    unfolding s3_def using read_hook [OF he2 te2 _ _ be2 fe2] c1 by simp
  then have r: "map_option b_lines (buffers s3 bufnr) = Some C1 \<and>
      map_option b_filetype (buffers s3 bufnr) = Some F1"
    by simp
  have n: "DenopsStdBufferConcreteRestore sfx t = (Inr (), t)"
    if "concrete_cache t sfx = Some tb" "tb (fn_bufnr t) = None" for t tb
    using that by (simp add: DenopsStdBufferConcreteRestore_def)
  show ?thesis
    using ok r n unfolding Let_def s1_def e1_def s2_def e2_def s3_def by blast
qed

theorem concrete_restores_latest_snapshot_witness:
  "fn_bufnr demo = 1 \<and> map_option b_lines (buffers demo 3) = Some [''x''] \<and>
   fst (concrete ''01A'' 3 demo) = Inr () \<and>
   map_option b_lines (buffers
     (doautocmd BufReadCmd (edit_buffer 3 [[]] []
        (doautocmd BufWriteCmd (edit_buffer 3 [''new'', ''text''] ''vim''
           ((snd (concrete ''01A'' 3 demo))\<lparr>windows := [(1000, 3)], curwin := 1000\<rparr>))))) 3) =
     Some [''new'', ''text''] \<and>
   map_option b_filetype (buffers
     (doautocmd BufReadCmd (edit_buffer 3 [[]] []
        (doautocmd BufWriteCmd (edit_buffer 3 [''new'', ''text''] ''vim''
           ((snd (concrete ''01A'' 3 demo))\<lparr>windows := [(1000, 3)], curwin := 1000\<rparr>))))) 3) =
     Some ''vim'' \<and>
   DenopsStdBufferConcreteRestore ''01A'' (snd (ensurePrerequisites ''01A'' demo)) =
     (Inr (), snd (ensurePrerequisites ''01A'' demo))"
proof -
  have cur: "fn_bufnr demo = 1" by (simp add: demo_def fn_bufnr_def)
  have ex: "buffers demo 3 \<noteq> None" by (simp add: demo_def)
  have sess: "\<forall>x. d_context demo cacheKey = Some (JString x) \<longrightarrow>
      x \<in> script_functions demo \<and> concrete_cache demo x \<noteq> None"
    by (simp add: demo_def)
  have sfx: "fst (ensurePrerequisites ''01A'' demo) = Inr ''01A''"
    by (simp add: ensurePrerequisites_def demo_def)
  have hooks: "\<forall>a\<in>set (autocmds demo). au_pattern a = BufferLocal 3 \<longrightarrow>
      au_group a = group_concrete ''01A''"
    by (simp add: demo_def)
  have shown: "map_of [(1000, 3)] (1000 :: int) = Some (3 :: nat)" by simp
  have c1: "[''new'', ''text''] \<noteq> []" by simp
  note t = concrete_restores_latest_snapshot [OF ex sess sfx hooks shown c1, of "''vim''" "[[]]" "[]"]
  have l: "map_option b_lines (buffers demo 3) = Some [''x'']"
    by (simp add: demo_def demo_buffer_def)
  have n: "concrete_cache (snd (ensurePrerequisites ''01A'' demo)) ''01A'' = Some Map.empty"
    by (simp add: ensurePrerequisites_def demo_def execute_script_def)
  have r: "DenopsStdBufferConcreteRestore ''01A'' (snd (ensurePrerequisites ''01A'' demo)) =
     (Inr (), snd (ensurePrerequisites ''01A'' demo))"
    using t n by simp
  from t cur l r show ?thesis by (simp add: Let_def)
qed

subsection \<open>load\<close>

text \<open>
  \<open>loaded\<close> grows only by the URL of a load that succeeded, and for one URL object the
  second load without \<open>force\<close> returns \<open>false\<close> and changes nothing.
\<close>

lemma load_populated_on_success:
  "load ensureLocalFile script url force (loaded, s) = (r, loaded1, s1) \<Longrightarrow>
   loaded1 = (if r = Inr True then add loaded url else loaded)"
  by (auto simp: load_def has_def add_def split: if_splits sum.splits prod.splits)

lemma load_same_object:
  assumes "load ensureLocalFile script url force (loaded, s) = (Inr True, loaded1, s1)"
  shows "has loaded1 url \<and>
         load ensureLocalFile script url False (loaded1, s2) = (Inr False, loaded1, s2)"
  using assms
  by (auto simp: load_def has_def add_def split: if_splits sum.splits prod.splits)

text \<open>
  Claim C10 fails for a URL in a new object. After the load of \<open>file:///foo.vim\<close> has
  succeeded, a load of the same URL in another object, without \<open>force\<close>, sources the
  script again and returns \<open>true\<close>.
\<close>

theorem load_equal_url_sourced_again:
  "load demo_ensureLocalFile demo_script \<lparr>url_object = 1, href = ''file:///foo.vim''\<rparr> False
       ({}, demo) =
     (Inr True, {1}, demo\<lparr>sourced := [''/foo.vim'']\<rparr>) \<and>
   load demo_ensureLocalFile demo_script \<lparr>url_object = 2, href = ''file:///foo.vim''\<rparr> False
       ({1}, demo\<lparr>sourced := [''/foo.vim'']\<rparr>) =
     (Inr True, {1, 2}, demo\<lparr>sourced := [''/foo.vim'', ''/foo.vim'']\<rparr>)"
  by (auto simp: load_def has_def add_def execute_source_def demo_ensureLocalFile_def
      demo_script_def demo_def)

end
